theory Spec2Isabelle
  imports Main
begin

section \<open>Values of request bodies\<close>

text \<open>
  A field of a JSON request body, as \<^verbatim>\<open>req.body.title\<close> reads it: absent
  (\<^verbatim>\<open>undefined\<close>), \<^verbatim>\<open>null\<close>, or text. Fields holding numbers, booleans, arrays or
  objects are outside this model.
\<close>

datatype jsval = Undefined | Null | Str string

text \<open>JavaScript truthiness, as used by \<^verbatim>\<open>!title\<close> and \<^verbatim>\<open>category || 'General'\<close>.\<close>

fun truthy :: "jsval \<Rightarrow> bool" where
  "truthy Undefined = False"
| "truthy Null = False"
| "truthy (Str s) = (s \<noteq> [])"

definition js_or :: "jsval \<Rightarrow> jsval \<Rightarrow> jsval" where
  "js_or a b = (if truthy a then a else b)"

text \<open>The two classes of field values the interface description speaks of.\<close>

definition empty_or_absent :: "jsval \<Rightarrow> bool" where
  "empty_or_absent v = (v = Undefined \<or> v = Null \<or> v = Str [])"

definition nonempty_text :: "jsval \<Rightarrow> bool" where
  "nonempty_text v = (case v of Str s \<Rightarrow> s \<noteq> [] | _ \<Rightarrow> False)"

record prompt_body =
  req_title :: jsval
  req_content :: jsval
  req_category :: jsval

datatype import_body = NotArray | Array "prompt_body list"

section \<open>The prompts table\<close>

text \<open>
  One row of
  \<^verbatim>\<open>prompts(id INTEGER PRIMARY KEY AUTOINCREMENT, title TEXT NOT NULL,
  content TEXT NOT NULL, category TEXT DEFAULT 'General', created_at, updated_at)\<close>.
  The category column is nullable. Timestamps are \<^verbatim>\<open>CURRENT_TIMESTAMP\<close> values, which
  have a resolution of one second; they are modelled as a number of seconds.
\<close>

record prompt =
  id' :: int
  title :: string
  content :: string
  category :: "string option"
  created_at :: nat
  updated_at :: nat

text \<open>
  The table keeps its rows in rowid order, the order of a table scan. \<^verbatim>\<open>sqlite_sequence\<close>
  holds the largest rowid ever handed out (the AUTOINCREMENT bookkeeping). The upper limit
  of rowids (2^63 - 1) is not modelled.
\<close>

record database =
  prompts :: "prompt list"
  sqlite_sequence :: int

datatype sqlite_error = NotNullConstraint

text \<open>Binding a statement parameter: \<^verbatim>\<open>undefined\<close> and \<^verbatim>\<open>null\<close> are bound as NULL.\<close>

fun bind_value :: "jsval \<Rightarrow> string option" where
  "bind_value Undefined = None"
| "bind_value Null = None"
| "bind_value (Str s) = Some s"

text \<open>
  \<^verbatim>\<open>INSERT INTO prompts (title, content, category) VALUES (?, ?, ?)\<close> run at time \<open>now\<close>.
  A NULL title or content violates NOT NULL: the statement throws and changes nothing.
  Otherwise the row gets the next rowid and both timestamps; the result carries
  \<^verbatim>\<open>lastInsertRowid\<close>.
\<close>

definition insert_run ::
  "nat \<Rightarrow> jsval \<Rightarrow> jsval \<Rightarrow> jsval \<Rightarrow> database \<Rightarrow> sqlite_error + (int \<times> database)" where
  "insert_run now t c g d =
     (case bind_value t of
        None \<Rightarrow> Inl NotNullConstraint
      | Some t' \<Rightarrow>
         (case bind_value c of
            None \<Rightarrow> Inl NotNullConstraint
          | Some c' \<Rightarrow>
             (let rowid = fold max (map id' (prompts d)) (sqlite_sequence d) + 1;
                  row = \<lparr>id' = rowid, title = t', content = c', category = bind_value g,
                         created_at = now, updated_at = now\<rparr>
              in Inr (rowid, d\<lparr>prompts := prompts d @ [row], sqlite_sequence := rowid\<rparr>))))"

text \<open>\<^verbatim>\<open>WHERE id = ?\<close>; the parameter is \<^verbatim>\<open>parseInt(req.params.id)\<close>, where \<open>None\<close> stands
  for NaN, which is bound as NULL and equals no id.\<close>

fun where_id :: "int option \<Rightarrow> prompt \<Rightarrow> bool" where
  "where_id None p = False"
| "where_id (Some i) p = (id' p = i)"

text \<open>The trigger \<^verbatim>\<open>update_prompts_timestamp\<close>:
  \<^verbatim>\<open>UPDATE prompts SET updated_at = CURRENT_TIMESTAMP WHERE id = OLD.id\<close>.\<close>

definition update_prompts_timestamp :: "nat \<Rightarrow> int \<Rightarrow> prompt list \<Rightarrow> prompt list" where
  "update_prompts_timestamp now old_id rows =
     map (\<lambda>p. if id' p = old_id then p\<lparr>updated_at := now\<rparr> else p) rows"

text \<open>
  \<^verbatim>\<open>UPDATE prompts SET title = ?, content = ?, category = ? WHERE id = ?\<close> run at time
  \<open>now\<close>. With no matching row nothing is checked and \<^verbatim>\<open>changes\<close> is 0. With a matching
  row, a NULL title or content violates NOT NULL and the statement throws; otherwise the
  three columns are written and the trigger fires for each updated row. The result carries
  \<^verbatim>\<open>changes\<close>, which does not count what the trigger changed.
\<close>

definition update_run ::
  "nat \<Rightarrow> jsval \<Rightarrow> jsval \<Rightarrow> jsval \<Rightarrow> int option \<Rightarrow> database \<Rightarrow> sqlite_error + (nat \<times> database)" where
  "update_run now t c g i d =
     (let hit = filter (where_id i) (prompts d) in
      if hit = [] then Inr (0, d)
      else
        (case bind_value t of
           None \<Rightarrow> Inl NotNullConstraint
         | Some t' \<Rightarrow>
            (case bind_value c of
               None \<Rightarrow> Inl NotNullConstraint
             | Some c' \<Rightarrow>
                (let written = map (\<lambda>p. if where_id i p
                                          then p\<lparr>title := t', content := c', category := bind_value g\<rparr>
                                          else p) (prompts d);
                     stamped = fold (update_prompts_timestamp now) (map id' hit) written
                 in Inr (length hit, d\<lparr>prompts := stamped\<rparr>)))))"

text \<open>\<^verbatim>\<open>DELETE FROM prompts WHERE id = ?\<close>.\<close>

definition delete_run :: "int option \<Rightarrow> database \<Rightarrow> database" where
  "delete_run i d = d\<lparr>prompts := filter (\<lambda>p. \<not> where_id i p) (prompts d)\<rparr>"

text \<open>\<^verbatim>\<open>SELECT * FROM prompts WHERE id = ?\<close> with \<^verbatim>\<open>.get\<close>: the first match, if any.\<close>

definition select_get :: "int option \<Rightarrow> database \<Rightarrow> prompt option" where
  "select_get i d = find (where_id i) (prompts d)"

text \<open>\<^verbatim>\<open>SELECT * FROM prompts\<close>: a table scan, in rowid order.\<close>

definition select_all :: "database \<Rightarrow> prompt list" where
  "select_all d = prompts d"

text \<open>
  \<^verbatim>\<open>SELECT * FROM prompts ORDER BY updated_at DESC\<close>. SQL leaves the order of rows with
  equal keys open; the model keeps them in scan order.
\<close>

fun insert_desc :: "prompt \<Rightarrow> prompt list \<Rightarrow> prompt list" where
  "insert_desc p [] = [p]"
| "insert_desc p (q # qs) =
     (if updated_at p \<le> updated_at q then q # insert_desc p qs else p # q # qs)"

definition select_all_order_by_updated_at_desc :: "database \<Rightarrow> prompt list" where
  "select_all_order_by_updated_at_desc d = fold insert_desc (prompts d) []"

text \<open>\<^verbatim>\<open>SELECT DISTINCT category FROM prompts\<close>: every category once, at the place of
  its first row in the scan.\<close>

definition select_distinct_category :: "database \<Rightarrow> string option list" where
  "select_distinct_category d = rev (remdups (rev (map category (prompts d))))"

text \<open>
  The body of \<^verbatim>\<open>insertMany\<close>: the loop over the batch. It runs inside
  \<^verbatim>\<open>db.transaction\<close>: when a statement throws, the transaction is rolled back and the
  exception propagates, so the caller keeps the database it had.
\<close>

fun insertMany :: "nat \<Rightarrow> prompt_body list \<Rightarrow> database \<Rightarrow> sqlite_error + database" where
  "insertMany now [] d = Inr d"
| "insertMany now (p # ps) d =
     (case insert_run now (req_title p) (req_content p)
             (js_or (req_category p) (Str ''General'')) d of
        Inl e \<Rightarrow> Inl e
      | Inr (rowid, d') \<Rightarrow> insertMany now ps d')"

section \<open>Connections and the server state\<close>

datatype ready_state = CONNECTING | OPEN | CLOSING | CLOSED

text \<open>
  One WebSocket object. \<open>handle\<close> is its identity; \<open>sent\<close> is what \<^verbatim>\<open>ws.send\<close> has
  put on the channel, \<open>pings\<close> counts the probes sent, \<open>terminated\<close> records that
  \<^verbatim>\<open>ws.terminate()\<close> destroyed the socket. The payload type \<open>'p\<close> is what
  \<^verbatim>\<open>JSON.stringify\<close> returns.
\<close>

record 'p ws =
  handle :: nat
  readyState :: ready_state
  isAlive :: bool
  sent :: "'p list"
  pings :: nat
  terminated :: bool

datatype message =
    InitialData "prompt list"
  | PromptCreated "prompt option"
  | PromptUpdated "prompt option"
  | PromptDeleted "int option"
  | PromptsImported nat

text \<open>
  The state of the process: the database, \<^verbatim>\<open>wss.clients\<close> (the registry the library
  keeps and that \<^verbatim>\<open>broadcast\<close> and the heartbeat iterate, in insertion order), the set
  \<^verbatim>\<open>clients\<close> of the source, the handle of the next connection, and the clock of the
  timers in milliseconds since \<^verbatim>\<open>setInterval\<close> was called. Two fields only observe:
  \<open>stringify_calls\<close> counts the calls of \<^verbatim>\<open>JSON.stringify\<close> and \<open>published\<close> lists the
  arguments of the calls of \<^verbatim>\<open>broadcast\<close>.
\<close>

record 'p server =
  db :: database
  wss_clients :: "'p ws list"
  clients :: "nat list"
  next_handle :: nat
  clock :: nat
  stringify_calls :: nat
  published :: "message list"

definition send :: "'p ws \<Rightarrow> 'p \<Rightarrow> 'p ws" where
  "send client s = client\<lparr>sent := sent client @ [s]\<rparr>"

text \<open>\<^verbatim>\<open>broadcast(message)\<close>; \<open>J\<close> is \<^verbatim>\<open>JSON.stringify\<close>.\<close>

definition broadcast :: "(message \<Rightarrow> 'p) \<Rightarrow> message \<Rightarrow> 'p server \<Rightarrow> 'p server" where
  "broadcast J message st =
     (let messageString = J message in
      st\<lparr>wss_clients :=
           map (\<lambda>client. if readyState client = OPEN then send client messageString else client)
             (wss_clients st),
         stringify_calls := stringify_calls st + 1,
         published := published st @ [message]\<rparr>)"

section \<open>The HTTP handlers\<close>

datatype error_text =
    QueryFailed | TitleContentRequired | CreateFailed | InvalidFormat
  | ImportFailed | NotFound | UpdateFailed | DeleteFailed

datatype body =
    Error error_text
  | Rows "prompt list"
  | Categories "string option list"
  | SuccessId int
  | SuccessCount nat
  | Success

record response =
  status :: nat
  json :: body

definition get_prompts :: "'p server \<Rightarrow> response \<times> 'p server" where
  "get_prompts st =
     (\<lparr>status = 200, json = Rows (select_all_order_by_updated_at_desc (db st))\<rparr>, st)"

definition get_categories :: "'p server \<Rightarrow> response \<times> 'p server" where
  "get_categories st =
     (\<lparr>status = 200, json = Categories (select_distinct_category (db st))\<rparr>, st)"

definition post_prompts ::
  "(message \<Rightarrow> 'p) \<Rightarrow> nat \<Rightarrow> prompt_body \<Rightarrow> 'p server \<Rightarrow> response \<times> 'p server" where
  "post_prompts J now b st =
     (if \<not> truthy (req_title b) \<or> \<not> truthy (req_content b)
      then (\<lparr>status = 400, json = Error TitleContentRequired\<rparr>, st)
      else
        (case insert_run now (req_title b) (req_content b)
                (js_or (req_category b) (Str ''General'')) (db st) of
           Inl e \<Rightarrow> (\<lparr>status = 500, json = Error CreateFailed\<rparr>, st)
         | Inr (lastInsertRowid, d') \<Rightarrow>
            (let newPrompt = select_get (Some lastInsertRowid) d'
             in (\<lparr>status = 201, json = SuccessId lastInsertRowid\<rparr>,
                 broadcast J (PromptCreated newPrompt) (st\<lparr>db := d'\<rparr>)))))"

definition post_import ::
  "(message \<Rightarrow> 'p) \<Rightarrow> nat \<Rightarrow> import_body \<Rightarrow> 'p server \<Rightarrow> response \<times> 'p server" where
  "post_import J now b st =
     (case b of
        NotArray \<Rightarrow> (\<lparr>status = 400, json = Error InvalidFormat\<rparr>, st)
      | Array newPrompts \<Rightarrow>
         (case insertMany now newPrompts (db st) of
            Inl e \<Rightarrow> (\<lparr>status = 500, json = Error ImportFailed\<rparr>, st)
          | Inr d' \<Rightarrow>
             (\<lparr>status = 200, json = SuccessCount (length newPrompts)\<rparr>,
              broadcast J (PromptsImported (length newPrompts)) (st\<lparr>db := d'\<rparr>))))"

definition put_prompt ::
  "(message \<Rightarrow> 'p) \<Rightarrow> nat \<Rightarrow> int option \<Rightarrow> prompt_body \<Rightarrow> 'p server \<Rightarrow> response \<times> 'p server" where
  "put_prompt J now i b st =
     (case update_run now (req_title b) (req_content b) (req_category b) i (db st) of
        Inl e \<Rightarrow> (\<lparr>status = 500, json = Error UpdateFailed\<rparr>, st)
      | Inr (changes, d') \<Rightarrow>
         (if changes = 0 then (\<lparr>status = 404, json = Error NotFound\<rparr>, st\<lparr>db := d'\<rparr>)
          else
            (let updatedPrompt = select_get i d'
             in (\<lparr>status = 200, json = Success\<rparr>,
                 broadcast J (PromptUpdated updatedPrompt) (st\<lparr>db := d'\<rparr>)))))"

definition delete_prompt ::
  "(message \<Rightarrow> 'p) \<Rightarrow> int option \<Rightarrow> 'p server \<Rightarrow> response \<times> 'p server" where
  "delete_prompt J i st =
     (\<lparr>status = 200, json = Success\<rparr>,
      broadcast J (PromptDeleted i) (st\<lparr>db := delete_run i (db st)\<rparr>))"

section \<open>The WebSocket handlers and the heartbeat\<close>

text \<open>\<^verbatim>\<open>Set.prototype.add\<close> on the insertion-ordered set \<^verbatim>\<open>clients\<close>.\<close>

definition set_add :: "nat \<Rightarrow> nat list \<Rightarrow> nat list" where
  "set_add h xs = (if h \<in> set xs then xs else xs @ [h])"

text \<open>
  \<^verbatim>\<open>wss.on('connection', ...)\<close>. The library has created the socket object, open, and put
  it into \<^verbatim>\<open>wss.clients\<close>; the handler adds it to \<^verbatim>\<open>clients\<close>, sends it the result of
  \<^verbatim>\<open>SELECT * FROM prompts\<close> as \<^verbatim>\<open>initial_data\<close> and sets \<^verbatim>\<open>isAlive\<close>.
\<close>

definition on_connection :: "(message \<Rightarrow> 'p) \<Rightarrow> 'p server \<Rightarrow> 'p server" where
  "on_connection J st =
     (let h = next_handle st;
          rows = select_all (db st);
          w = \<lparr>handle = h, readyState = OPEN, isAlive = True,
               sent = [J (InitialData rows)], pings = 0, terminated = False\<rparr>
      in st\<lparr>wss_clients := wss_clients st @ [w],
            clients := set_add h (clients st),
            next_handle := h + 1,
            stringify_calls := stringify_calls st + 1\<rparr>)"

text \<open>
  The socket's close event: the library sets the state to CLOSED and drops the socket from
  \<^verbatim>\<open>wss.clients\<close>; the handler of the source deletes it from \<^verbatim>\<open>clients\<close>.
\<close>

definition on_close :: "nat \<Rightarrow> 'p server \<Rightarrow> 'p server" where
  "on_close h st =
     st\<lparr>wss_clients := filter (\<lambda>w. handle w \<noteq> h) (wss_clients st),
        clients := removeAll h (clients st)\<rparr>"

definition on_pong :: "nat \<Rightarrow> 'p server \<Rightarrow> 'p server" where
  "on_pong h st =
     st\<lparr>wss_clients :=
          map (\<lambda>w. if handle w = h then w\<lparr>isAlive := True\<rparr> else w) (wss_clients st)\<rparr>"

text \<open>
  \<^verbatim>\<open>ws.terminate()\<close> destroys the socket: the state becomes CLOSING at once, and the
  socket's close event follows by itself, without the peer (see \<open>closes_of_destroyed\<close>).
  \<^verbatim>\<open>ws.ping(null, false, true)\<close> is the call of the library versions whose third
  parameter is \<^verbatim>\<open>failSilently\<close>: it sends a probe on an open socket and does nothing on
  any other.
\<close>

definition terminate :: "'p ws \<Rightarrow> 'p ws" where
  "terminate w =
     (if readyState w = CLOSED then w else w\<lparr>readyState := CLOSING, terminated := True\<rparr>)"

definition ping :: "'p ws \<Rightarrow> 'p ws" where
  "ping w = (if readyState w = OPEN then w\<lparr>pings := pings w + 1\<rparr> else w)"

text \<open>One run of the \<^verbatim>\<open>setInterval\<close> callback.\<close>

definition heartbeat :: "'p server \<Rightarrow> 'p server" where
  "heartbeat st =
     st\<lparr>wss_clients :=
          map (\<lambda>w. if \<not> isAlive w then terminate w else ping (w\<lparr>isAlive := False\<rparr>))
            (wss_clients st)\<rparr>"

text \<open>
  The close events that the destruction of sockets brings: every socket that
  \<^verbatim>\<open>ws.terminate()\<close> has destroyed closes, and its close event is handled as any other
  (\<open>on_close\<close>: out of \<^verbatim>\<open>wss.clients\<close> and out of \<^verbatim>\<open>clients\<close>).
\<close>

definition closes_of_destroyed :: "'p server \<Rightarrow> 'p server" where
  "closes_of_destroyed st =
     fold on_close (map handle (filter terminated (wss_clients st))) st"

text \<open>
  The timer. The callback is due at the instants \<open>P\<close>, \<open>2P\<close>, \<open>3P\<close>, ... of the clock,
  \<open>P\<close> = 30000 ms. A timer never fires early: the callback due at an instant runs in the
  millisecond that begins at that instant, so an event handled at the instant itself comes
  before it. In every millisecond the close events of the sockets destroyed before it
  arrive first.
\<close>

definition heartbeat_period :: nat where
  "heartbeat_period = 30000"

definition due :: "nat \<Rightarrow> bool" where
  "due c = (0 < c \<and> c mod heartbeat_period = 0)"

definition millisecond :: "'p server \<Rightarrow> 'p server" where
  "millisecond st =
     (let c = clock st;
          closed = closes_of_destroyed st;
          beaten = (if due c then heartbeat closed else closed)
      in beaten\<lparr>clock := c + 1\<rparr>)"

definition elapse :: "nat \<Rightarrow> 'p server \<Rightarrow> 'p server" where
  "elapse ms st = (millisecond ^^ ms) st"

text \<open>\<open>fired c\<close> is the number of callbacks that have run when the clock reads \<open>c\<close>: the
  number of instants \<open>P\<close>, \<open>2P\<close>, ... before \<open>c\<close>.\<close>

definition fired :: "nat \<Rightarrow> nat" where
  "fired c = (c - 1) div heartbeat_period"

section \<open>Runs of the server\<close>

datatype request =
    GET_prompts
  | GET_categories
  | POST_prompts prompt_body
  | POST_import import_body
  | PUT_prompt "int option" prompt_body
  | DELETE_prompt "int option"

definition handle_request ::
  "(message \<Rightarrow> 'p) \<Rightarrow> nat \<Rightarrow> request \<Rightarrow> 'p server \<Rightarrow> response \<times> 'p server" where
  "handle_request J now r st =
     (case r of
        GET_prompts \<Rightarrow> get_prompts st
      | GET_categories \<Rightarrow> get_categories st
      | POST_prompts b \<Rightarrow> post_prompts J now b st
      | POST_import b \<Rightarrow> post_import J now b st
      | PUT_prompt i b \<Rightarrow> put_prompt J now i b st
      | DELETE_prompt i \<Rightarrow> delete_prompt J i st)"

text \<open>
  What can happen to the process: a request arrives (with the reading of
  \<^verbatim>\<open>CURRENT_TIMESTAMP\<close> during it), a viewer connects, a socket closes, a pong arrives, or
  time passes.
\<close>

datatype event =
    Request nat request
  | Connection
  | Close nat
  | Pong nat
  | Elapse nat

fun step :: "(message \<Rightarrow> 'p) \<Rightarrow> event \<Rightarrow> 'p server \<Rightarrow> 'p server" where
  "step J (Request now r) st = snd (handle_request J now r st)"
| "step J Connection st = on_connection J st"
| "step J (Close h) st = on_close h st"
| "step J (Pong h) st = on_pong h st"
| "step J (Elapse ms) st = elapse ms st"

definition run :: "(message \<Rightarrow> 'p) \<Rightarrow> event list \<Rightarrow> 'p server \<Rightarrow> 'p server" where
  "run J evs st = fold (step J) evs st"

section \<open>Start of the process\<close>

text \<open>
  The texts of the three sample prompts that are inserted into an empty table, as UTF-8
  bytes.
\<close>

definition sample_title_1 :: string where
  "sample_title_1 =
     [CHR 0xE7, CHR 0xBF, CHR 0xBB, CHR 0xE8, CHR 0xAF, CHR 0x91, CHR 0xE5, CHR 0x8A,
      CHR 0xA9, CHR 0xE6, CHR 0x89, CHR 0x8B]"

definition sample_content_1 :: string where
  "sample_content_1 =
     [CHR 0xE5, CHR 0xB0, CHR 0x86, CHR 0xE4, CHR 0xBB, CHR 0xA5, CHR 0xE4, CHR 0xB8,
      CHR 0x8B, CHR 0xE8, CHR 0x8B, CHR 0xB1, CHR 0xE6, CHR 0x96, CHR 0x87, CHR 0xE7,
      CHR 0xBF, CHR 0xBB, CHR 0xE8, CHR 0xAF, CHR 0x91, CHR 0xE6, CHR 0x88, CHR 0x90,
      CHR 0xE4, CHR 0xB8, CHR 0xAD, CHR 0xE6, CHR 0x96, CHR 0x87, CHR 0xEF, CHR 0xBC,
      CHR 0x9A]"

definition sample_category_1 :: string where
  "sample_category_1 =
     [CHR 0xE5, CHR 0xB7, CHR 0xA5, CHR 0xE5, CHR 0x85, CHR 0xB7]"

definition sample_title_2 :: string where
  "sample_title_2 =
     [CHR 0xE5, CHR 0x86, CHR 0x99, CHR 0xE4, CHR 0xBD, CHR 0x9C, CHR 0xE5, CHR 0x8A,
      CHR 0xA9, CHR 0xE6, CHR 0x89, CHR 0x8B]"

definition sample_content_2 :: string where
  "sample_content_2 =
     [CHR 0xE8, CHR 0xAF, CHR 0xB7, CHR 0xE5, CHR 0xB8, CHR 0xAE, CHR 0xE5, CHR 0x8A,
      CHR 0xA9, CHR 0xE6, CHR 0x88, CHR 0x91, CHR 0xE5, CHR 0x86, CHR 0x99, CHR 0xE4,
      CHR 0xB8, CHR 0x80, CHR 0xE7, CHR 0xAF, CHR 0x87, CHR 0xE5, CHR 0x85, CHR 0xB3,
      CHR 0xE4, CHR 0xBA, CHR 0x8E, CHR 0x7B, CHR 0xE4, CHR 0xB8, CHR 0xBB, CHR 0xE9,
      CHR 0xA2, CHR 0x98, CHR 0x7D, CHR 0xE7, CHR 0x9A, CHR 0x84, CHR 0xE6, CHR 0x96,
      CHR 0x87, CHR 0xE7, CHR 0xAB, CHR 0xA0, CHR 0xEF, CHR 0xBC, CHR 0x8C, CHR 0xE8,
      CHR 0xA6, CHR 0x81, CHR 0xE6, CHR 0xB1, CHR 0x82, CHR 0xEF, CHR 0xBC, CHR 0x9A]"

definition sample_category_2 :: string where
  "sample_category_2 =
     [CHR 0xE5, CHR 0x88, CHR 0x9B, CHR 0xE4, CHR 0xBD, CHR 0x9C]"

definition sample_title_3 :: string where
  "sample_title_3 =
     [CHR 0xE4, CHR 0xBB, CHR 0xA3, CHR 0xE7, CHR 0xA0, CHR 0x81, CHR 0xE5, CHR 0x8A,
      CHR 0xA9, CHR 0xE6, CHR 0x89, CHR 0x8B]"

definition sample_content_3 :: string where
  "sample_content_3 =
     [CHR 0xE8, CHR 0xAF, CHR 0xB7, CHR 0xE8, CHR 0xA7, CHR 0xA3, CHR 0xE9, CHR 0x87,
      CHR 0x8A, CHR 0xE4, CHR 0xBB, CHR 0xA5, CHR 0xE4, CHR 0xB8, CHR 0x8B, CHR 0xE4,
      CHR 0xBB, CHR 0xA3, CHR 0xE7, CHR 0xA0, CHR 0x81, CHR 0xE7, CHR 0x9A, CHR 0x84,
      CHR 0xE5, CHR 0x8A, CHR 0x9F, CHR 0xE8, CHR 0x83, CHR 0xBD, CHR 0xEF, CHR 0xBC,
      CHR 0x9A]"

definition sample_category_3 :: string where
  "sample_category_3 =
     [CHR 0xE5, CHR 0xBC, CHR 0x80, CHR 0xE5, CHR 0x8F, CHR 0x91]"

text \<open>
  The start-up code: when the table of the database file is empty, the three sample prompts
  are inserted, each by its own statement. An exception here ends the process.
\<close>

definition seed :: "nat \<Rightarrow> database \<Rightarrow> sqlite_error + database" where
  "seed now d =
     (let rowCount = length (prompts d) in
      if rowCount = 0 then
        (case insert_run now (Str sample_title_1) (Str sample_content_1)
                (Str sample_category_1) d of
           Inl e \<Rightarrow> Inl e
         | Inr (r1, d1) \<Rightarrow>
            (case insert_run now (Str sample_title_2) (Str sample_content_2)
                    (Str sample_category_2) d1 of
               Inl e \<Rightarrow> Inl e
             | Inr (r2, d2) \<Rightarrow>
                (case insert_run now (Str sample_title_3) (Str sample_content_3)
                        (Str sample_category_3) d2 of
                   Inl e \<Rightarrow> Inl e
                 | Inr (r3, d3) \<Rightarrow> Inr d3)))
      else Inr d)"

text \<open>The process after start at second \<open>now\<close> on the database file \<open>d\<close>: no connection
  yet, the timer just installed.\<close>

definition startup :: "nat \<Rightarrow> database \<Rightarrow> sqlite_error + 'p server" where
  "startup now d =
     (case seed now d of
        Inl e \<Rightarrow> Inl e
      | Inr d' \<Rightarrow>
         Inr \<lparr>db = d', wss_clients = [], clients = [], next_handle = 0, clock = 0,
              stringify_calls = 0, published = []\<rparr>)"

section \<open>Notions used by the properties\<close>

text \<open>
  What the registry \<^verbatim>\<open>wss.clients\<close> holds under a handle: state, liveness flag and
  whether the socket was destroyed, for every socket with that handle. The empty list
  means that the handle is not registered.
\<close>

definition view :: "nat \<Rightarrow> 'p ws list \<Rightarrow> (ready_state \<times> bool \<times> bool) list" where
  "view h ws =
     map (\<lambda>w. (readyState w, isAlive w, terminated w)) (filter (\<lambda>w. handle w = h) ws)"

definition liveness :: "nat \<Rightarrow> 'p server \<Rightarrow> (ready_state \<times> bool \<times> bool) list" where
  "liveness h st = view h (wss_clients st)"

text \<open>The effect of one heartbeat on such an entry.\<close>

definition beat :: "ready_state \<times> bool \<times> bool \<Rightarrow> ready_state \<times> bool \<times> bool" where
  "beat v =
     (case v of (r, a, t) \<Rightarrow>
        if \<not> a then (if r = CLOSED then (r, a, t) else (CLOSING, a, True)) else (r, False, t))"

text \<open>
  A run in which connection \<open>h\<close> answers every probe and does not disconnect: started at
  clock \<open>c\<close>, with \<open>pending\<close> telling whether a probe of \<open>h\<close> is unanswered, no heartbeat
  finds a probe unanswered. Time that passes may bring at most one heartbeat at once, since
  two heartbeats in a row leave no room for the pong between them.
\<close>

fun answers_every_probe :: "nat \<Rightarrow> nat \<Rightarrow> bool \<Rightarrow> event list \<Rightarrow> bool" where
  "answers_every_probe h c pending [] = True"
| "answers_every_probe h c pending (Elapse ms # evs) =
     (let n = fired (c + ms) - fired c in
      if n = 0 then answers_every_probe h (c + ms) pending evs
      else if n = 1 \<and> \<not> pending then answers_every_probe h (c + ms) True evs
      else False)"
| "answers_every_probe h c pending (Pong h' # evs) =
     answers_every_probe h c (if h' = h then False else pending) evs"
| "answers_every_probe h c pending (Close h' # evs) =
     (h' \<noteq> h \<and> answers_every_probe h c pending evs)"
| "answers_every_probe h c pending (Request now r # evs) =
     answers_every_probe h c pending evs"
| "answers_every_probe h c pending (Connection # evs) =
     answers_every_probe h c pending evs"

text \<open>A run in which connection \<open>h\<close> sends no pong and does not disconnect.\<close>

definition silent :: "nat \<Rightarrow> event list \<Rightarrow> bool" where
  "silent h evs = list_all (\<lambda>e. e \<noteq> Pong h \<and> e \<noteq> Close h) evs"

text \<open>The instant at which the second heartbeat at or after instant \<open>t\<close> is due.\<close>

definition eviction_instant :: "nat \<Rightarrow> nat" where
  "eviction_instant t = (fired t + 2) * heartbeat_period"

text \<open>
  What the registry holds, when the clock reads \<open>c\<close>, under the handle of a connection
  that was marked alive at instant \<open>t\<close> and has been silent since: untouched up to the
  first heartbeat, flagged up to the second, destroyed in the millisecond of the second,
  and gone after it.
\<close>

definition expected :: "nat \<Rightarrow> nat \<Rightarrow> (ready_state \<times> bool \<times> bool) list" where
  "expected t c =
     (if c \<le> eviction_instant t - heartbeat_period then [(OPEN, True, False)]
      else if c \<le> eviction_instant t then [(OPEN, False, False)]
      else if c = eviction_instant t + 1 then [(CLOSING, False, True)]
      else [])"

subsection \<open>Example inputs\<close>

text \<open>A new database file, and the process started on it at second 0.\<close>

definition new_file :: database where
  "new_file = \<lparr>prompts = [], sqlite_sequence = 0\<rparr>"

definition started :: "message server" where
  "started = projr (startup 0 new_file)"

definition prompt_a :: prompt_body where
  "prompt_a = \<lparr>req_title = Str ''A'', req_content = Str ''a'', req_category = Undefined\<rparr>"

definition prompt_b :: prompt_body where
  "prompt_b = \<lparr>req_title = Str ''B'', req_content = Str ''b'', req_category = Str ''X''\<rparr>"

definition no_title :: prompt_body where
  "no_title = \<lparr>req_title = Undefined, req_content = Str ''b'', req_category = Str ''X''\<rparr>"

definition empty_title :: prompt_body where
  "empty_title = \<lparr>req_title = Str [], req_content = Str ''c'', req_category = Undefined\<rparr>"

text \<open>A batch of five rows whose third row has an empty title.\<close>

definition batch_with_empty_title :: "prompt_body list" where
  "batch_with_empty_title = [prompt_a, prompt_b, empty_title, prompt_a, prompt_b]"

text \<open>The server after two creations, at seconds 100 and 200. In the examples the
  payload of a message is the message itself.\<close>

definition two_prompts :: "message server" where
  "two_prompts =
     run (\<lambda>m. m) [Request 100 (POST_prompts prompt_a), Request 200 (POST_prompts prompt_b)]
       started"

text \<open>The server \<open>two_prompts\<close> one second after start, when a viewer has connected.\<close>

definition watched :: "message server" where
  "watched = run (\<lambda>m. m) [Elapse 1000, Connection] two_prompts"

text \<open>The server one second after start, when a viewer has connected.\<close>

definition one_viewer :: "message server" where
  "one_viewer = run (\<lambda>m. m) [Elapse 1000, Connection] started"

text \<open>Two viewers; the first one has missed two heartbeats and its socket was destroyed,
  the second one answered the first probe.\<close>

definition two_viewers :: "message server" where
  "two_viewers =
     run (\<lambda>m. m) [Elapse 1000, Connection, Connection, Elapse 29001, Pong 1, Elapse 30000]
       started"

text \<open>A run of \<open>one_viewer\<close> in which the viewer answers both probes it gets.\<close>

definition answering_run :: "event list" where
  "answering_run =
     [Elapse 29001, Pong 0, Request 5 (POST_prompts prompt_a), Elapse 30000, Pong 0]"

text \<open>A run of \<open>one_viewer\<close> through two heartbeats in which the viewer stays silent.\<close>

definition silent_run_example :: "event list" where
  "silent_run_example = [Elapse 29001, Request 5 (POST_prompts prompt_a), Elapse 30000]"

section \<open>Auxiliary facts\<close>

lemmas handler_defs =
  handle_request_def get_prompts_def get_categories_def post_prompts_def post_import_def
  put_prompt_def delete_prompt_def

lemma startup_new_file: "startup 0 new_file = Inr started"
  by (simp add: started_def startup_def seed_def new_file_def insert_run_def Let_def)

lemma truthy_iff: "truthy v = (\<not> empty_or_absent v)"
  by (cases v) (simp_all add: empty_or_absent_def)

lemma broadcast_fields:
  "db (broadcast J m st) = db st"
  "clients (broadcast J m st) = clients st"
  "published (broadcast J m st) = published st @ [m]"
  "stringify_calls (broadcast J m st) = stringify_calls st + 1"
  "next_handle (broadcast J m st) = next_handle st"
  "clock (broadcast J m st) = clock st"
  by (simp_all add: broadcast_def Let_def)

lemma broadcast_clients:
  "wss_clients (broadcast J m st) =
     map (\<lambda>client. if readyState client = OPEN
                    then client\<lparr>sent := sent client @ [J m]\<rparr> else client)
       (wss_clients st)"
  by (simp add: broadcast_def send_def Let_def)

subsection \<open>The table\<close>

lemma length_insert_desc: "length (insert_desc p xs) = Suc (length xs)"
  by (induction xs) auto

lemma length_fold_insert_desc: "length (fold insert_desc xs acc) = length xs + length acc"
  by (induction xs arbitrary: acc) (auto simp: length_insert_desc)

lemma length_select_all_order_by:
  "length (select_all_order_by_updated_at_desc d) = length (prompts d)"
  by (simp add: select_all_order_by_updated_at_desc_def length_fold_insert_desc)

lemma fold_max_ge: "(a::int) \<le> fold max xs a"
proof (induction xs arbitrary: a)
  case Nil
  then show ?case by simp
next
  case (Cons x xs)
  have "a \<le> max x a" by simp
  also have "\<dots> \<le> fold max xs (max x a)" by (rule Cons.IH)
  finally show ?case by simp
qed

lemma fold_max_ge_elem: "(x::int) \<in> set xs \<Longrightarrow> x \<le> fold max xs a"
proof (induction xs arbitrary: a)
  case Nil
  then show ?case by simp
next
  case (Cons y ys)
  show ?case
  proof (cases "x = y")
    case True
    have "x \<le> max y a" using True by simp
    also have "\<dots> \<le> fold max ys (max y a)" by (rule fold_max_ge)
    finally show ?thesis by simp
  next
    case False
    with Cons show ?thesis by simp
  qed
qed

lemma find_append_last: "find P xs = None \<Longrightarrow> P x \<Longrightarrow> find P (xs @ [x]) = Some x"
  by (induction xs) (auto split: if_splits)

lemma find_map_same:
  "(\<And>x. P (f x) = P x) \<Longrightarrow> find P (map f xs) = map_option f (find P xs)"
  by (induction xs) auto

lemma insert_run_valid:
  "nonempty_text t \<Longrightarrow> nonempty_text c \<Longrightarrow>
   \<exists>rowid d'. insert_run now t c g d = Inr (rowid, d')
      \<and> length (prompts d') = Suc (length (prompts d))"
  by (auto simp: insert_run_def nonempty_text_def Let_def split: jsval.splits)

lemma insertMany_valid:
  "\<forall>p\<in>set ps. nonempty_text (req_title p) \<and> nonempty_text (req_content p) \<Longrightarrow>
   \<exists>d'. insertMany now ps d = Inr d' \<and> length (prompts d') = length (prompts d) + length ps"
proof (induction ps arbitrary: d)
  case Nil
  then show ?case by simp
next
  case (Cons p ps)
  then obtain rowid d1
    where 1: "insert_run now (req_title p) (req_content p)
                (js_or (req_category p) (Str ''General'')) d = Inr (rowid, d1)"
      and 2: "length (prompts d1) = Suc (length (prompts d))"
    using insert_run_valid[of "req_title p" "req_content p"] by fastforce
  from Cons obtain d'
    where "insertMany now ps d1 = Inr d'"
      and "length (prompts d') = length (prompts d1) + length ps"
    by fastforce
  with 1 2 show ?case by simp
qed

lemma stamp_twice:
  "update_prompts_timestamp now k (update_prompts_timestamp now k rows)
     = update_prompts_timestamp now k rows"
  by (induction rows) (auto simp: update_prompts_timestamp_def)

lemma fold_stamp_replicate:
  "fold (update_prompts_timestamp now) (replicate (Suc n) k) rows
     = update_prompts_timestamp now k rows"
  by (induction n) (simp_all add: stamp_twice)

lemma ids_of_hits:
  "map id' (filter (where_id (Some k)) rows)
     = replicate (length (filter (where_id (Some k)) rows)) k"
  by (induction rows) auto

lemma find_where_id_None: "find (where_id None) rows = None"
  by (induction rows) auto

lemma update_run_hit:
  assumes "find (where_id i) (prompts d) = Some p"
  shows "update_run now (Str t) (Str c) g i d =
     Inr (length (filter (where_id i) (prompts d)),
          d\<lparr>prompts := map (\<lambda>q. if where_id i q
                                 then q\<lparr>title := t, content := c, category := bind_value g,
                                        updated_at := now\<rparr>
                                 else q) (prompts d)\<rparr>)"
proof -
  from assms obtain k where k: "i = Some k"
    by (cases i) (simp_all add: find_where_id_None)
  from assms have hit: "filter (where_id i) (prompts d) \<noteq> []"
    by (auto simp: filter_empty_conv find_Some_iff)
  then obtain n where n: "length (filter (where_id i) (prompts d)) = Suc n"
    by (cases "filter (where_id i) (prompts d)") auto
  let ?written = "map (\<lambda>q. if where_id i q
                            then q\<lparr>title := t, content := c, category := bind_value g\<rparr>
                            else q) (prompts d)"
  have ids: "map id' (filter (where_id i) (prompts d)) = replicate (Suc n) k"
    using ids_of_hits[of k "prompts d"] n unfolding k by (simp only:)
  have "fold (update_prompts_timestamp now) (map id' (filter (where_id i) (prompts d))) ?written
          = update_prompts_timestamp now k ?written"
    unfolding ids by (rule fold_stamp_replicate)
  also have "\<dots> = map (\<lambda>q. if where_id i q
                            then q\<lparr>title := t, content := c, category := bind_value g,
                                   updated_at := now\<rparr>
                            else q) (prompts d)"
    by (simp add: update_prompts_timestamp_def k)
  finally have stamped:
    "fold (update_prompts_timestamp now) (map id' (filter (where_id i) (prompts d))) ?written
       = map (\<lambda>q. if where_id i q
                     then q\<lparr>title := t, content := c, category := bind_value g,
                            updated_at := now\<rparr>
                     else q) (prompts d)" .
  show ?thesis
    unfolding update_run_def Let_def using hit by (simp add: stamped)
qed

subsection \<open>Connections\<close>

lemma view_map_same:
  "(\<And>w. handle (f w) = handle w \<and> readyState (f w) = readyState w \<and> isAlive (f w) = isAlive w
        \<and> terminated (f w) = terminated w) \<Longrightarrow> view h (map f ws) = view h ws"
  by (induction ws) (auto simp: view_def)

lemma liveness_broadcast: "liveness h (broadcast J m st) = liveness h st"
  unfolding liveness_def broadcast_def Let_def
  by (simp add: view_map_same send_def)

lemma liveness_db_update: "liveness h (st\<lparr>db := d\<rparr>) = liveness h st"
  by (simp add: liveness_def)

lemma handle_request_frame:
  "liveness h (snd (handle_request J now r st)) = liveness h st"
  "next_handle (snd (handle_request J now r st)) = next_handle st"
  "clients (snd (handle_request J now r st)) = clients st"
  "clock (snd (handle_request J now r st)) = clock st"
  by (auto simp: handle_request_def get_prompts_def get_categories_def post_prompts_def
        post_import_def put_prompt_def delete_prompt_def liveness_broadcast liveness_db_update
        broadcast_fields Let_def
      split: request.splits sum.splits prod.splits import_body.splits)

lemma view_heartbeat: "view h (map (\<lambda>w. if \<not> isAlive w then terminate w else ping (w\<lparr>isAlive := False\<rparr>)) ws)
   = map beat (view h ws)"
  by (induction ws) (auto simp: view_def beat_def terminate_def ping_def)

lemma liveness_heartbeat: "liveness h (heartbeat st) = map beat (liveness h st)"
  by (simp add: liveness_def heartbeat_def view_heartbeat)

lemma heartbeat_fields:
  "next_handle (heartbeat st) = next_handle st"
  "clients (heartbeat st) = clients st"
  "clock (heartbeat st) = clock st"
  "db (heartbeat st) = db st"
  by (simp_all add: heartbeat_def)

lemma on_connection_frame:
  "h < next_handle st \<Longrightarrow> liveness h (on_connection J st) = liveness h st"
  "next_handle (on_connection J st) = next_handle st + 1"
  "h \<in> set (clients st) \<Longrightarrow> h \<in> set (clients (on_connection J st))"
  "clock (on_connection J st) = clock st"
  by (simp_all add: on_connection_def liveness_def view_def Let_def set_add_def)

lemma view_filter_other:
  "h' \<noteq> h \<Longrightarrow> view h (filter (\<lambda>w. handle w \<noteq> h') ws) = view h ws"
  by (induction ws) (auto simp: view_def)

lemma view_filter_same: "view h (filter (\<lambda>w. handle w \<noteq> h) ws) = []"
  by (induction ws) (auto simp: view_def)

lemma on_close_frame:
  "h' \<noteq> h \<Longrightarrow> liveness h (on_close h' st) = liveness h st"
  "next_handle (on_close h' st) = next_handle st"
  "h' \<noteq> h \<Longrightarrow> h \<in> set (clients st) \<Longrightarrow> h \<in> set (clients (on_close h' st))"
  "clock (on_close h' st) = clock st"
  "liveness h (on_close h st) = []"
  "h \<notin> set (clients (on_close h st))"
  by (simp_all add: on_close_def liveness_def view_filter_other view_filter_same)

lemma view_pong_other:
  "h' \<noteq> h \<Longrightarrow> view h (map (\<lambda>w. if handle w = h' then w\<lparr>isAlive := True\<rparr> else w) ws) = view h ws"
  by (induction ws) (auto simp: view_def)

lemma view_pong_same:
  "view h (map (\<lambda>w. if handle w = h then w\<lparr>isAlive := True\<rparr> else w) ws)
     = map (\<lambda>(r, a, t). (r, True, t)) (view h ws)"
  by (induction ws) (auto simp: view_def)

lemma on_pong_frame:
  "h' \<noteq> h \<Longrightarrow> liveness h (on_pong h' st) = liveness h st"
  "liveness h (on_pong h st) = map (\<lambda>(r, a, t). (r, True, t)) (liveness h st)"
  "next_handle (on_pong h' st) = next_handle st"
  "clients (on_pong h' st) = clients st"
  "clock (on_pong h' st) = clock st"
  by (simp_all add: on_pong_def liveness_def view_pong_other view_pong_same)

lemma liveness_on_close:
  "liveness h (on_close h' st) = (if h' = h then [] else liveness h st)"
  by (simp add: on_close_def liveness_def view_filter_other view_filter_same)

lemma clients_on_close:
  "(h \<in> set (clients (on_close h' st))) = (h \<in> set (clients st) \<and> h \<noteq> h')"
  by (auto simp: on_close_def)

lemma clients_on_connection:
  "(h \<in> set (clients (on_connection J st))) = (h \<in> set (clients st) \<or> h = next_handle st)"
  by (auto simp: on_connection_def set_add_def Let_def)

subsection \<open>Close events of destroyed sockets\<close>

lemma fold_on_close_fields:
  "next_handle (fold on_close hs st) = next_handle st"
  "clock (fold on_close hs st) = clock st"
  by (induction hs arbitrary: st) (simp_all add: on_close_def)

lemma liveness_fold_on_close:
  "liveness h (fold on_close hs st) = (if h \<in> set hs then [] else liveness h st)"
proof (induction hs arbitrary: st)
  case Nil
  show ?case by simp
next
  case (Cons x xs)
  show ?case
    using Cons.IH[of "on_close x st"] by (simp add: liveness_on_close)
qed

lemma clients_fold_on_close:
  "(h \<in> set (clients (fold on_close hs st))) = (h \<in> set (clients st) \<and> h \<notin> set hs)"
proof (induction hs arbitrary: st)
  case Nil
  show ?case by simp
next
  case (Cons x xs)
  show ?case
    using Cons.IH[of "on_close x st"] by (auto simp: clients_on_close)
qed

lemma destroyed_handles:
  "(h \<in> set (map handle (filter terminated ws))) = list_ex (\<lambda>v. snd (snd v)) (view h ws)"
  by (induction ws) (auto simp: view_def)

lemma closes_fields:
  "next_handle (closes_of_destroyed st) = next_handle st"
  "clock (closes_of_destroyed st) = clock st"
  by (simp_all add: closes_of_destroyed_def fold_on_close_fields)

lemma liveness_closes:
  "liveness h (closes_of_destroyed st) =
     (if list_ex (\<lambda>v. snd (snd v)) (liveness h st) then [] else liveness h st)"
  unfolding closes_of_destroyed_def liveness_fold_on_close destroyed_handles
  by (simp add: liveness_def)

lemma clients_closes:
  "(h \<in> set (clients (closes_of_destroyed st))) =
     (h \<in> set (clients st) \<and> \<not> list_ex (\<lambda>v. snd (snd v)) (liveness h st))"
  unfolding closes_of_destroyed_def clients_fold_on_close destroyed_handles
  by (simp add: liveness_def)

lemma closes_none:
  "filter terminated (wss_clients st) = [] \<Longrightarrow> closes_of_destroyed st = st"
  by (simp add: closes_of_destroyed_def)

subsection \<open>The passing of time\<close>

lemma millisecond_fields:
  "next_handle (millisecond st) = next_handle st"
  "clock (millisecond st) = Suc (clock st)"
  by (simp_all add: millisecond_def Let_def closes_fields heartbeat_fields)

lemma liveness_millisecond:
  "liveness h (millisecond st) =
     (if due (clock st) then map beat else (\<lambda>v. v))
       (if list_ex (\<lambda>v. snd (snd v)) (liveness h st) then [] else liveness h st)"
proof -
  have "liveness h (millisecond st) =
      (if due (clock st)
       then liveness h (heartbeat (closes_of_destroyed st))
       else liveness h (closes_of_destroyed st))"
    by (simp add: millisecond_def Let_def liveness_def)
  then show ?thesis
    by (simp add: liveness_heartbeat liveness_closes)
qed

lemma clients_millisecond:
  "(h \<in> set (clients (millisecond st))) =
     (h \<in> set (clients st) \<and> \<not> list_ex (\<lambda>v. snd (snd v)) (liveness h st))"
proof -
  have "clients (millisecond st) = clients (closes_of_destroyed st)"
    by (simp add: millisecond_def Let_def heartbeat_fields)
  then show ?thesis by (simp add: clients_closes)
qed

lemma elapse_Suc: "elapse (Suc ms) st = millisecond (elapse ms st)"
  by (simp add: elapse_def)

lemma elapse_fields:
  "next_handle (elapse ms st) = next_handle st"
  "clock (elapse ms st) = clock st + ms"
  by (induction ms) (simp_all add: elapse_def millisecond_fields)

lemma fired_mono: "a \<le> b \<Longrightarrow> fired a \<le> fired b"
  by (simp add: fired_def div_le_mono)

lemma fired_ge_iff: "0 < m \<Longrightarrow> (m \<le> fired c) = (m * heartbeat_period < c)"
proof -
  assume m: "0 < m"
  have P: "0 < heartbeat_period" by (simp add: heartbeat_period_def)
  have "(m \<le> fired c) = (m * heartbeat_period \<le> c - 1)"
    unfolding fired_def using P by (simp add: less_eq_div_iff_mult_less_eq)
  also have "\<dots> = (m * heartbeat_period < c)"
    using m P by (cases c) auto
  finally show ?thesis .
qed

lemma fired_Suc:
  "fired (Suc c) = (if due c then Suc (fired c) else fired c)"
proof (cases c)
  case 0
  then show ?thesis by (simp add: fired_def due_def)
next
  case (Suc n)
  then show ?thesis by (simp add: fired_def due_def div_Suc)
qed

subsection \<open>A connection that answers\<close>

lemma answered_elapse:
  assumes "liveness h st = [(OPEN, a, False)]" and "h \<in> set (clients st)"
  shows "(fired (clock st + ms) = fired (clock st) \<longrightarrow>
            liveness h (elapse ms st) = [(OPEN, a, False)] \<and> h \<in> set (clients (elapse ms st)))
       \<and> (fired (clock st + ms) = Suc (fired (clock st)) \<and> a \<longrightarrow>
            liveness h (elapse ms st) = [(OPEN, False, False)] \<and> h \<in> set (clients (elapse ms st)))"
proof (induction ms)
  case 0
  show ?case using assms by (simp add: elapse_def)
next
  case (Suc ms)
  let ?s = "elapse ms st"
  have c: "clock ?s = clock st + ms" by (simp add: elapse_fields)
  have m: "fired (clock st) \<le> fired (clock st + ms)" by (simp add: fired_mono)
  have f: "fired (clock st + Suc ms) =
      (if due (clock ?s)
       then Suc (fired (clock st + ms)) else fired (clock st + ms))"
    using fired_Suc[of "clock st + ms"] by (simp add: c)
  show ?case
  proof (rule conjI; rule impI)
    assume e: "fired (clock st + Suc ms) = fired (clock st)"
    then have q: "fired (clock st + ms) = fired (clock st)"
      and nd: "\<not> (due (clock ?s))"
      using f m by (auto split: if_splits)
    with Suc have "liveness h ?s = [(OPEN, a, False)]" "h \<in> set (clients ?s)" by simp_all
    then show "liveness h (elapse (Suc ms) st) = [(OPEN, a, False)]
        \<and> h \<in> set (clients (elapse (Suc ms) st))"
      using nd by (simp add: elapse_Suc liveness_millisecond clients_millisecond)
  next
    assume e: "fired (clock st + Suc ms) = Suc (fired (clock st)) \<and> a"
    show "liveness h (elapse (Suc ms) st) = [(OPEN, False, False)]
        \<and> h \<in> set (clients (elapse (Suc ms) st))"
    proof (cases "due (clock ?s)")
      case True
      then have "fired (clock st + ms) = fired (clock st)" using e f by simp
      with Suc have "liveness h ?s = [(OPEN, a, False)]" "h \<in> set (clients ?s)" by simp_all
      then show ?thesis
        using True e by (simp add: elapse_Suc liveness_millisecond clients_millisecond beat_def)
    next
      case False
      then have "fired (clock st + ms) = Suc (fired (clock st))" using e f by simp
      with Suc e have "liveness h ?s = [(OPEN, False, False)]" "h \<in> set (clients ?s)"
        by simp_all
      then show ?thesis
        using False by (simp add: elapse_Suc liveness_millisecond clients_millisecond)
    qed
  qed
qed

lemma answered_run:
  "liveness h st = [(OPEN, a, False)] \<Longrightarrow> h < next_handle st \<Longrightarrow> h \<in> set (clients st) \<Longrightarrow>
   answers_every_probe h (clock st) (\<not> a) evs \<Longrightarrow>
   \<exists>a'. liveness h (run J evs st) = [(OPEN, a', False)] \<and> h \<in> set (clients (run J evs st))"
proof (induction evs arbitrary: st a)
  case Nil
  then show ?case by (simp add: run_def)
next
  case (Cons e evs)
  show ?case
  proof (cases e)
    case (Request now r)
    have "\<exists>a'. liveness h (run J evs (step J e st)) = [(OPEN, a', False)]
        \<and> h \<in> set (clients (run J evs (step J e st)))"
      using Cons.prems Request
      by (intro Cons.IH[of _ a]) (simp_all add: handle_request_frame)
    then show ?thesis by (simp add: run_def)
  next
    case Connection
    have "\<exists>a'. liveness h (run J evs (step J e st)) = [(OPEN, a', False)]
        \<and> h \<in> set (clients (run J evs (step J e st)))"
      using Cons.prems Connection
      by (intro Cons.IH[of _ a]) (simp_all add: on_connection_frame)
    then show ?thesis by (simp add: run_def)
  next
    case (Close h')
    have "\<exists>a'. liveness h (run J evs (step J e st)) = [(OPEN, a', False)]
        \<and> h \<in> set (clients (run J evs (step J e st)))"
      using Cons.prems Close
      by (intro Cons.IH[of _ a]) (simp_all add: on_close_frame)
    then show ?thesis by (simp add: run_def)
  next
    case (Pong h')
    have "\<exists>a'. liveness h (run J evs (step J e st)) = [(OPEN, a', False)]
        \<and> h \<in> set (clients (run J evs (step J e st)))"
    proof (cases "h' = h")
      case True
      show ?thesis using Cons.prems Pong True
        by (intro Cons.IH[of _ True]) (simp_all add: on_pong_frame)
    next
      case False
      show ?thesis using Cons.prems Pong False
        by (intro Cons.IH[of _ a]) (simp_all add: on_pong_frame)
    qed
    then show ?thesis by (simp add: run_def)
  next
    case (Elapse ms)
    define n where "n = fired (clock st + ms) - fired (clock st)"
    have mono: "fired (clock st) \<le> fired (clock st + ms)" by (simp add: fired_mono)
    note el = answered_elapse[OF Cons.prems(1) Cons.prems(3), of ms]
    have "\<exists>a'. liveness h (run J evs (step J e st)) = [(OPEN, a', False)]
        \<and> h \<in> set (clients (run J evs (step J e st)))"
    proof (cases "n = 0")
      case True
      then have "fired (clock st + ms) = fired (clock st)" using mono by (simp add: n_def)
      with el have "liveness h (elapse ms st) = [(OPEN, a, False)]"
        "h \<in> set (clients (elapse ms st))" by simp_all
      then show ?thesis using Cons.prems Elapse True
        by (intro Cons.IH[of _ a]) (simp_all add: elapse_fields n_def Let_def)
    next
      case False
      with Cons.prems Elapse have n1: "n = 1" and a: "a"
        and rest: "answers_every_probe h (clock st + ms) True evs"
        by (auto simp: n_def Let_def split: if_splits)
      from n1 have "fired (clock st + ms) = Suc (fired (clock st))" by (simp add: n_def)
      with el a have "liveness h (elapse ms st) = [(OPEN, False, False)]"
        "h \<in> set (clients (elapse ms st))" by simp_all
      then show ?thesis using Cons.prems(2) Elapse rest
        by (intro Cons.IH[of _ False]) (simp_all add: elapse_fields)
    qed
    then show ?thesis by (simp add: run_def)
  qed
qed

lemma answers_every_probe_take:
  "answers_every_probe h c p evs \<Longrightarrow> answers_every_probe h c p (take k evs)"
proof (induction h c p evs arbitrary: k rule: answers_every_probe.induct)
  case (1 h c pending)
  then show ?case by simp
next
  case (2 h c pending ms evs)
  then show ?case by (cases k) (auto simp: Let_def split: if_splits)
next
  case (3 h c pending h' evs)
  then show ?case by (cases k) auto
next
  case (4 h c pending h' evs)
  then show ?case by (cases k) auto
next
  case (5 h c pending now r evs)
  then show ?case by (cases k) auto
next
  case (6 h c pending evs)
  then show ?case by (cases k) auto
qed

subsection \<open>A connection that stays silent\<close>

lemma mark_before_first_beat: "t \<le> eviction_instant t - heartbeat_period"
proof -
  have "(fired t + 1 \<le> fired t) = ((fired t + 1) * heartbeat_period < t)"
    by (rule fired_ge_iff) simp
  then have "t \<le> (fired t + 1) * heartbeat_period" by simp
  then show ?thesis by (simp add: eviction_instant_def)
qed

lemma silent_millisecond:
  assumes v: "liveness h st = expected t (clock st)"
    and t: "t \<le> clock st"
    and g: "eviction_instant t + 1 < clock st \<longrightarrow> h \<notin> set (clients st)"
  shows "liveness h (millisecond st) = expected t (clock (millisecond st))
       \<and> (eviction_instant t + 1 < clock (millisecond st) \<longrightarrow>
            h \<notin> set (clients (millisecond st)))"
proof -
  define c where "c = clock st"
  define f where "f = (fired t + 1) * heartbeat_period"
  define e where "e = eviction_instant t"
  have P: "0 < heartbeat_period" by (simp add: heartbeat_period_def)
  have ef: "e = f + heartbeat_period" "e - heartbeat_period = f"
    by (simp_all add: e_def f_def eviction_instant_def)
  have le_f: "(x \<le> f) = (fired x \<le> fired t)" for x
  proof -
    have "(fired t + 1 \<le> fired x) = ((fired t + 1) * heartbeat_period < x)"
      by (rule fired_ge_iff) simp
    then show ?thesis unfolding f_def by linarith
  qed
  have le_e: "(x \<le> e) = (fired x \<le> fired t + 1)" for x
  proof -
    have "(fired t + 2 \<le> fired x) = ((fired t + 2) * heartbeat_period < x)"
      by (rule fired_ge_iff) simp
    then show ?thesis unfolding e_def eviction_instant_def by linarith
  qed
  have ge: "fired t \<le> fired c" using t by (simp add: c_def fired_mono)
  have up: "fired c \<le> fired (Suc c)" by (simp add: fired_mono)
  have due: "due c = (fired (Suc c) = Suc (fired c))"
    using fired_Suc[of c] by auto
  have ex: "\<And>x. expected t x =
      (if x \<le> f then [(OPEN, True, False)]
       else if x \<le> e then [(OPEN, False, False)]
       else if x = e + 1 then [(CLOSING, False, True)]
       else [])"
    by (simp add: expected_def e_def[symmetric] ef)
  have lm: "liveness h (millisecond st) =
      (if fired (Suc c) = Suc (fired c) then map beat else (\<lambda>v. v))
        (if list_ex (\<lambda>v. snd (snd v)) (expected t c) then [] else expected t c)"
    using liveness_millisecond[of h st] v due by (simp add: c_def)
  have cm: "(h \<in> set (clients (millisecond st))) =
      (h \<in> set (clients st) \<and> \<not> list_ex (\<lambda>v. snd (snd v)) (expected t c))"
    using clients_millisecond[of h st] v by (simp add: c_def)
  have ck: "clock (millisecond st) = Suc c"
    by (simp add: millisecond_fields c_def)
  have fe: "f < e" using P ef by simp
  consider (A) "Suc c \<le> f" | (B) "c = f" | (C) "f < c" "Suc c \<le> e" | (D) "c = e"
    | (E) "c = e + 1" | (F) "e + 1 < c"
    by linarith
  then have "liveness h (millisecond st) = expected t (Suc c)
      \<and> (e + 1 < Suc c \<longrightarrow> h \<notin> set (clients (millisecond st)))"
  proof cases
    case A
    then have "c \<le> f" by simp
    moreover have "fired (Suc c) = fired c"
      using A le_f[of "Suc c"] ge up by simp
    ultimately show ?thesis using A fe by (simp add: lm ex)
  next
    case B
    have "fired c \<le> fired t" using B le_f[of c] by simp
    moreover have "\<not> fired (Suc c) \<le> fired t" using B le_f[of "Suc c"] by simp
    moreover have "fired (Suc c) \<le> Suc (fired c)" using fired_Suc[of c] by simp
    ultimately have "fired (Suc c) = Suc (fired c)" by simp
    then show ?thesis using B fe by (simp add: lm ex beat_def)
  next
    case C
    have "\<not> fired c \<le> fired t" using C le_f[of c] by simp
    moreover have "fired (Suc c) \<le> fired t + 1" using C le_e[of "Suc c"] by simp
    ultimately have "fired (Suc c) = fired c" using up by simp
    then show ?thesis using C by (simp add: lm ex)
  next
    case D
    have "fired c \<le> fired t + 1" using D le_e[of c] by simp
    moreover have "\<not> fired (Suc c) \<le> fired t + 1" using D le_e[of "Suc c"] by simp
    moreover have "fired (Suc c) \<le> Suc (fired c)" using fired_Suc[of c] by simp
    ultimately have "fired (Suc c) = Suc (fired c)" by simp
    then show ?thesis using D fe by (simp add: lm ex beat_def)
  next
    case E
    then show ?thesis using fe by (simp add: lm ex cm)
  next
    case F
    then have "h \<notin> set (clients st)" using g by (simp add: e_def c_def)
    then show ?thesis using F fe by (simp add: lm ex cm)
  qed
  then show ?thesis by (simp add: ck e_def)
qed

lemma silent_elapse:
  assumes "liveness h st = expected t (clock st)"
    and "t \<le> clock st"
    and "eviction_instant t + 1 < clock st \<longrightarrow> h \<notin> set (clients st)"
  shows "liveness h (elapse ms st) = expected t (clock (elapse ms st))
       \<and> (eviction_instant t + 1 < clock (elapse ms st) \<longrightarrow> h \<notin> set (clients (elapse ms st)))"
proof (induction ms)
  case 0
  show ?case using assms by (simp add: elapse_def)
next
  case (Suc ms)
  have "t \<le> clock (elapse ms st)" using assms(2) by (simp add: elapse_fields)
  with Suc show ?case
    unfolding elapse_Suc by (intro silent_millisecond) simp_all
qed

lemma silent_run:
  "liveness h st = expected t (clock st) \<Longrightarrow> t \<le> clock st \<Longrightarrow>
   eviction_instant t + 1 < clock st \<longrightarrow> h \<notin> set (clients st) \<Longrightarrow>
   h < next_handle st \<Longrightarrow> silent h evs \<Longrightarrow>
   liveness h (run J evs st) = expected t (clock (run J evs st))
   \<and> (eviction_instant t + 1 < clock (run J evs st) \<longrightarrow> h \<notin> set (clients (run J evs st)))"
proof (induction evs arbitrary: st)
  case Nil
  then show ?case by (simp add: run_def)
next
  case (Cons e evs)
  have sil: "silent h evs" and e: "e \<noteq> Pong h" "e \<noteq> Close h"
    using Cons.prems(5) by (simp_all add: silent_def)
  have "liveness h (step J e st) = expected t (clock (step J e st))
      \<and> t \<le> clock (step J e st)
      \<and> (eviction_instant t + 1 < clock (step J e st) \<longrightarrow> h \<notin> set (clients (step J e st)))
      \<and> h < next_handle (step J e st)"
  proof (cases e)
    case (Request now r)
    then show ?thesis using Cons.prems by (simp add: handle_request_frame)
  next
    case Connection
    then show ?thesis using Cons.prems
      by (simp add: on_connection_frame clients_on_connection)
  next
    case (Close h')
    then show ?thesis using Cons.prems e
      by (simp add: on_close_frame clients_on_close)
  next
    case (Pong h')
    then show ?thesis using Cons.prems e by (simp add: on_pong_frame)
  next
    case (Elapse ms)
    then show ?thesis
      using silent_elapse[OF Cons.prems(1-3), of ms] Cons.prems(2,4)
      by (simp add: elapse_fields)
  qed
  then have "liveness h (run J evs (step J e st)) = expected t (clock (run J evs (step J e st)))
   \<and> (eviction_instant t + 1 < clock (run J evs (step J e st)) \<longrightarrow>
        h \<notin> set (clients (run J evs (step J e st))))"
    using sil by (intro Cons.IH) simp_all
  then show ?case by (simp add: run_def)
qed

lemma eviction_window:
  "0 < t \<Longrightarrow> heartbeat_period \<le> eviction_instant t - t \<and> eviction_instant t - t < 2 * heartbeat_period"
proof -
  assume t: "0 < t"
  have P: "0 < heartbeat_period" by (simp add: heartbeat_period_def)
  have d: "(t - 1) div heartbeat_period * heartbeat_period + (t - 1) mod heartbeat_period = t - 1"
    by simp
  have m: "(t - 1) mod heartbeat_period < heartbeat_period" using P by simp
  have e: "eviction_instant t = (t - 1) div heartbeat_period * heartbeat_period + 2 * heartbeat_period"
    by (simp add: eviction_instant_def fired_def algebra_simps)
  show ?thesis unfolding e using d m t by linarith
qed

subsection \<open>Evaluating runs\<close>

lemma elapse_quiet:
  "fired (clock st + ms) = fired (clock st) \<Longrightarrow> filter terminated (wss_clients st) = [] \<Longrightarrow>
   elapse ms st = st\<lparr>clock := clock st + ms\<rparr>"
proof (induction ms)
  case 0
  then show ?case by (simp add: elapse_def)
next
  case (Suc ms)
  have m: "fired (clock st) \<le> fired (clock st + ms)" by (simp add: fired_mono)
  have u: "fired (clock st + ms) \<le> fired (Suc (clock st + ms))" by (simp add: fired_mono)
  from Suc.prems(1) m u have q: "fired (clock st + ms) = fired (clock st)"
    and s: "fired (Suc (clock st + ms)) = fired (clock st + ms)" by simp_all
  from s have nd: "\<not> due (clock st + ms)"
    using fired_Suc[of "clock st + ms"] by (auto split: if_splits)
  have "elapse ms st = st\<lparr>clock := clock st + ms\<rparr>"
    using q Suc.prems(2) by (rule Suc.IH)
  then show ?case
    using nd Suc.prems(2) by (simp add: elapse_Suc millisecond_def Let_def closes_none)
qed

lemma elapse_beat:
  assumes "0 < ms"
    and "fired (clock st + ms - 1) = fired (clock st)"
    and "fired (clock st + ms) = Suc (fired (clock st))"
    and "filter terminated (wss_clients st) = []"
  shows "elapse ms st = (heartbeat st)\<lparr>clock := clock st + ms\<rparr>"
proof -
  from assms(1) obtain k where k: "ms = Suc k" by (cases ms) auto
  have q: "elapse k st = st\<lparr>clock := clock st + k\<rparr>"
    using assms(2,4) by (intro elapse_quiet) (simp_all add: k)
  have "fired (Suc (clock st + k)) = Suc (fired (clock st + k))"
    using assms(2,3) by (simp add: k)
  then have d: "due (clock st + k)"
    using fired_Suc[of "clock st + k"] by (auto split: if_splits)
  show ?thesis
    using d assms(4) by (simp add: k elapse_Suc q millisecond_def Let_def closes_none heartbeat_def)
qed

lemmas eval_defs =
  run_def handler_defs insert_run_def update_run_def delete_run_def select_get_def
  select_all_def select_all_order_by_updated_at_desc_def update_prompts_timestamp_def
  js_or_def broadcast_def send_def on_connection_def on_close_def on_pong_def heartbeat_def
  terminate_def ping_def elapse_quiet elapse_beat fired_def heartbeat_period_def set_add_def
  started_def startup_def seed_def new_file_def prompt_a_def prompt_b_def no_title_def
  empty_title_def Let_def

section \<open>Bulk import\<close>

text \<open>
  C1. The claim: a batch with a row whose title or content is empty or absent is rejected as
  a whole, nothing of it is stored and no \<^verbatim>\<open>prompts_imported\<close> event goes out. The import
  handler checks no row; only the NOT NULL constraint stops a row, and an empty text is not
  NULL. On the freshly started server, whose listing has the three sample prompts, the batch
  of five rows whose third row has the empty title is answered with 200 and count 5; the
  listing then has eight rows, the five newest being those of the batch, the one with the
  empty title among them; and the event with count 5 is published.
\<close>

theorem import_accepts_empty_title:
  "fst (post_import (\<lambda>m. m) 7 (Array batch_with_empty_title) started)
     = \<lparr>status = 200, json = SuccessCount 5\<rparr>
   \<and> length (select_all_order_by_updated_at_desc (db started)) = 3
   \<and> map title (select_all_order_by_updated_at_desc
         (db (snd (post_import (\<lambda>m. m) 7 (Array batch_with_empty_title) started))))
     = [''A'', ''B'', [], ''A'', ''B'', sample_title_1, sample_title_2, sample_title_3]
   \<and> published (snd (post_import (\<lambda>m. m) 7 (Array batch_with_empty_title) started))
     = [PromptsImported 5]"
  by (simp add: batch_with_empty_title_def eval_defs)

text \<open>
  C4. A batch of \<open>N\<close> rows, each with non-empty title and content, is answered with 200,
  success and count \<open>N\<close>; the listing grows by exactly \<open>N\<close> rows; and exactly one
  \<^verbatim>\<open>prompts_imported\<close> event with count \<open>N\<close> is published: \<^verbatim>\<open>broadcast\<close> is called once,
  serializes once, and every open connection gets that one payload appended to what was
  sent to it while every other connection stays as it was. The server afterwards is the
  server before with the new table and that one broadcast made.
\<close>

theorem import_valid_batch:
  assumes "\<forall>p\<in>set rows. nonempty_text (req_title p) \<and> nonempty_text (req_content p)"
  shows "fst (post_import J now (Array rows) st)
           = \<lparr>status = 200, json = SuccessCount (length rows)\<rparr>
       \<and> length (select_all_order_by_updated_at_desc (db (snd (post_import J now (Array rows) st))))
           = length (select_all_order_by_updated_at_desc (db st)) + length rows
       \<and> published (snd (post_import J now (Array rows) st))
           = published st @ [PromptsImported (length rows)]
       \<and> stringify_calls (snd (post_import J now (Array rows) st)) = stringify_calls st + 1
       \<and> wss_clients (snd (post_import J now (Array rows) st))
           = map (\<lambda>client. if readyState client = OPEN
                          then client\<lparr>sent := sent client @ [J (PromptsImported (length rows))]\<rparr>
                          else client)
               (wss_clients st)
       \<and> snd (post_import J now (Array rows) st)
           = broadcast J (PromptsImported (length rows))
               (st\<lparr>db := db (snd (post_import J now (Array rows) st))\<rparr>)"
proof -
  obtain d' where i: "insertMany now rows (db st) = Inr d'"
    and l: "length (prompts d') = length (prompts (db st)) + length rows"
    using insertMany_valid[OF assms] by blast
  have pp: "post_import J now (Array rows) st =
      (\<lparr>status = 200, json = SuccessCount (length rows)\<rparr>,
       broadcast J (PromptsImported (length rows)) (st\<lparr>db := d'\<rparr>))"
    by (simp add: post_import_def i)
  show ?thesis
    unfolding pp using l
    by (simp add: broadcast_fields broadcast_clients length_select_all_order_by)
qed

theorem import_valid_batch_witness:
  "nonempty_text (req_title prompt_a) \<and> nonempty_text (req_content prompt_a)
   \<and> nonempty_text (req_title prompt_b) \<and> nonempty_text (req_content prompt_b)
   \<and> fst (post_import (\<lambda>m. m) 300 (Array [prompt_a, prompt_b]) watched)
       = \<lparr>status = 200, json = SuccessCount 2\<rparr>
   \<and> length (select_all_order_by_updated_at_desc
        (db (snd (post_import (\<lambda>m. m) 300 (Array [prompt_a, prompt_b]) watched))))
       = length (select_all_order_by_updated_at_desc (db watched)) + 2
   \<and> published (snd (post_import (\<lambda>m. m) 300 (Array [prompt_a, prompt_b]) watched))
       = published watched @ [PromptsImported 2]
   \<and> map sent (wss_clients watched) = [[InitialData (select_all (db two_prompts))]]
   \<and> map sent (wss_clients (snd (post_import (\<lambda>m. m) 300 (Array [prompt_a, prompt_b]) watched)))
       = [[InitialData (select_all (db two_prompts)), PromptsImported 2]]"
proof -
  have h: "\<forall>p\<in>set [prompt_a, prompt_b].
      nonempty_text (req_title p) \<and> nonempty_text (req_content p)"
    by (simp add: prompt_a_def prompt_b_def nonempty_text_def)
  have w: "wss_clients watched =
      [\<lparr>handle = 0, readyState = OPEN, isAlive = True,
         sent = [InitialData (select_all (db two_prompts))], pings = 0, terminated = False\<rparr>]"
    by (simp add: watched_def two_prompts_def eval_defs)
  show ?thesis
    using h import_valid_batch [OF h, of "\<lambda>m. m" 300 watched] by (simp add: w)
qed

text \<open>
  C10. Importing the empty array is answered with 200, success and count 0, leaves the
  table as it was, and still publishes one \<^verbatim>\<open>prompts_imported\<close> event, with count 0: the
  server afterwards is the server before with that one broadcast made.
\<close>

theorem import_empty_array:
  "fst (post_import J now (Array []) st) = \<lparr>status = 200, json = SuccessCount 0\<rparr>
   \<and> db (snd (post_import J now (Array []) st)) = db st
   \<and> published (snd (post_import J now (Array []) st)) = published st @ [PromptsImported 0]
   \<and> snd (post_import J now (Array []) st) = broadcast J (PromptsImported 0) st"
  by (simp add: post_import_def broadcast_fields)

theorem import_empty_array_witness:
  "fst (post_import (\<lambda>m. m) 300 (Array []) one_viewer) = \<lparr>status = 200, json = SuccessCount 0\<rparr>
   \<and> db (snd (post_import (\<lambda>m. m) 300 (Array []) one_viewer)) = db one_viewer
   \<and> published (snd (post_import (\<lambda>m. m) 300 (Array []) one_viewer)) = [PromptsImported 0]
   \<and> map sent (wss_clients (snd (post_import (\<lambda>m. m) 300 (Array []) one_viewer)))
       = [[InitialData (select_all (db started)), PromptsImported 0]]"
  using import_empty_array [of "\<lambda>m. m" 300 one_viewer]
  by (simp add: one_viewer_def eval_defs)

section \<open>Creating a prompt\<close>

text \<open>
  C5. A creation request whose title or content is empty or absent is answered with 400 and
  leaves the whole server state as it was: nothing stored, nothing broadcast. A request
  with non-empty title and content is answered with 201 and the id of the created row; the
  id is that of no row present before, the row is appended to the table with the given
  title and content, a lookup by the id finds it, and it is published as
  \<^verbatim>\<open>prompt_created\<close>.
\<close>

theorem post_prompts_validation:
  "(empty_or_absent (req_title b) \<or> empty_or_absent (req_content b) \<longrightarrow>
      post_prompts J now b st = (\<lparr>status = 400, json = Error TitleContentRequired\<rparr>, st))
   \<and> (nonempty_text (req_title b) \<and> nonempty_text (req_content b) \<longrightarrow>
      (\<exists>rowid row.
         fst (post_prompts J now b st) = \<lparr>status = 201, json = SuccessId rowid\<rparr>
       \<and> rowid \<notin> set (map id' (prompts (db st)))
       \<and> prompts (db (snd (post_prompts J now b st))) = prompts (db st) @ [row]
       \<and> id' row = rowid \<and> Str (title row) = req_title b \<and> Str (content row) = req_content b
       \<and> select_get (Some rowid) (db (snd (post_prompts J now b st))) = Some row
       \<and> published (snd (post_prompts J now b st)) = published st @ [PromptCreated (Some row)]))"
proof (intro conjI impI)
  assume "empty_or_absent (req_title b) \<or> empty_or_absent (req_content b)"
  then show "post_prompts J now b st = (\<lparr>status = 400, json = Error TitleContentRequired\<rparr>, st)"
    by (auto simp: post_prompts_def truthy_iff)
next
  assume a: "nonempty_text (req_title b) \<and> nonempty_text (req_content b)"
  then obtain t c where t: "req_title b = Str t" "t \<noteq> []" and c: "req_content b = Str c" "c \<noteq> []"
    by (auto simp: nonempty_text_def split: jsval.splits)
  define rowid where "rowid = fold max (map id' (prompts (db st))) (sqlite_sequence (db st)) + 1"
  define row where "row = \<lparr>id' = rowid, title = t, content = c,
     category = bind_value (js_or (req_category b) (Str ''General'')),
     created_at = now, updated_at = now\<rparr>"
  have fresh: "rowid \<notin> set (map id' (prompts (db st)))"
  proof
    assume "rowid \<in> set (map id' (prompts (db st)))"
    then have "rowid \<le> fold max (map id' (prompts (db st))) (sqlite_sequence (db st))"
      by (rule fold_max_ge_elem)
    then show False by (simp add: rowid_def)
  qed
  have ins: "insert_run now (req_title b) (req_content b)
        (js_or (req_category b) (Str ''General'')) (db st)
      = Inr (rowid, (db st)\<lparr>prompts := prompts (db st) @ [row], sqlite_sequence := rowid\<rparr>)"
    by (simp add: insert_run_def t c Let_def rowid_def row_def)
  have nf: "find (where_id (Some rowid)) (prompts (db st)) = None"
    using fresh by (auto simp: find_None_iff)
  have get: "select_get (Some rowid)
        ((db st)\<lparr>prompts := prompts (db st) @ [row], sqlite_sequence := rowid\<rparr>) = Some row"
    using find_append_last[OF nf, of row] by (simp add: select_get_def row_def)
  have pp: "post_prompts J now b st =
      (\<lparr>status = 201, json = SuccessId rowid\<rparr>,
       broadcast J (PromptCreated (Some row))
         (st\<lparr>db := (db st)\<lparr>prompts := prompts (db st) @ [row], sqlite_sequence := rowid\<rparr>\<rparr>))"
    unfolding post_prompts_def ins using t c get by simp
  have "fst (post_prompts J now b st) = \<lparr>status = 201, json = SuccessId rowid\<rparr>
       \<and> rowid \<notin> set (map id' (prompts (db st)))
       \<and> prompts (db (snd (post_prompts J now b st))) = prompts (db st) @ [row]
       \<and> id' row = rowid \<and> Str (title row) = req_title b \<and> Str (content row) = req_content b
       \<and> select_get (Some rowid) (db (snd (post_prompts J now b st))) = Some row
       \<and> published (snd (post_prompts J now b st)) = published st @ [PromptCreated (Some row)]"
    unfolding pp using fresh get t c by (simp add: broadcast_fields) (simp add: row_def)
  then show "\<exists>rowid row.
         fst (post_prompts J now b st) = \<lparr>status = 201, json = SuccessId rowid\<rparr>
       \<and> rowid \<notin> set (map id' (prompts (db st)))
       \<and> prompts (db (snd (post_prompts J now b st))) = prompts (db st) @ [row]
       \<and> id' row = rowid \<and> Str (title row) = req_title b \<and> Str (content row) = req_content b
       \<and> select_get (Some rowid) (db (snd (post_prompts J now b st))) = Some row
       \<and> published (snd (post_prompts J now b st)) = published st @ [PromptCreated (Some row)]"
    by blast
qed

theorem post_prompts_validation_witness:
  "empty_or_absent (req_title empty_title)
   \<and> post_prompts (\<lambda>m. m) 300 empty_title two_prompts
       = (\<lparr>status = 400, json = Error TitleContentRequired\<rparr>, two_prompts)
   \<and> nonempty_text (req_title prompt_a) \<and> nonempty_text (req_content prompt_a)
   \<and> fst (post_prompts (\<lambda>m. m) 300 prompt_a two_prompts) = \<lparr>status = 201, json = SuccessId 6\<rparr>
   \<and> map id' (prompts (db two_prompts)) = [1, 2, 3, 4, 5]"
proof -
  have e: "empty_or_absent (req_title empty_title)"
    by (simp add: empty_title_def empty_or_absent_def)
  have n: "nonempty_text (req_title prompt_a) \<and> nonempty_text (req_content prompt_a)"
    by (simp add: prompt_a_def nonempty_text_def)
  have r: "post_prompts (\<lambda>m. m) 300 empty_title two_prompts
       = (\<lparr>status = 400, json = Error TitleContentRequired\<rparr>, two_prompts)"
    using post_prompts_validation [of empty_title "\<lambda>m. m" 300 two_prompts] e by blast
  have "\<exists>rowid. fst (post_prompts (\<lambda>m. m) 300 prompt_a two_prompts)
        = \<lparr>status = 201, json = SuccessId rowid\<rparr>"
    using post_prompts_validation [of prompt_a "\<lambda>m. m" 300 two_prompts] n by blast
  then show ?thesis
    using e n r by (simp add: two_prompts_def eval_defs)
qed

section \<open>Deleting a prompt\<close>

text \<open>
  C2, as claimed: deleting an id that no row has succeeds, leaves the table unchanged and
  publishes no event. The handler broadcasts without looking at the number of deleted rows.
  With one viewer connected and the three sample prompts in the table, deleting id 7 publishes
  \<^verbatim>\<open>prompt_deleted\<close> for 7, and the viewer receives it.
\<close>

theorem delete_missing_id_counterexample:
  "select_get (Some 7) (db one_viewer) = None
   \<and> published one_viewer = []
   \<and> published (snd (delete_prompt (\<lambda>m. m) (Some 7) one_viewer)) = [PromptDeleted (Some 7)]
   \<and> map sent (wss_clients (snd (delete_prompt (\<lambda>m. m) (Some 7) one_viewer)))
       = [[InitialData (select_all (db started)), PromptDeleted (Some 7)]]"
  by (simp add: one_viewer_def eval_defs)

text \<open>
  C2, amended: deleting an id that no row has is answered with 200 and success, leaves the
  table unchanged, and publishes exactly one \<^verbatim>\<open>prompt_deleted\<close> event, which carries that
  id: the server afterwards is the server before with that one broadcast made.
\<close>

theorem delete_missing_id_publishes:
  assumes "select_get i (db st) = None"
  shows "fst (delete_prompt J i st) = \<lparr>status = 200, json = Success\<rparr>
       \<and> db (snd (delete_prompt J i st)) = db st
       \<and> published (snd (delete_prompt J i st)) = published st @ [PromptDeleted i]
       \<and> snd (delete_prompt J i st) = broadcast J (PromptDeleted i) st"
proof -
  have "filter (\<lambda>p. \<not> where_id i p) (prompts (db st)) = prompts (db st)"
    using assms by (auto simp: select_get_def find_None_iff filter_id_conv)
  then have "delete_run i (db st) = db st"
    by (simp add: delete_run_def)
  then show ?thesis
    by (simp add: delete_prompt_def broadcast_fields)
qed

theorem delete_missing_id_publishes_witness:
  "select_get (Some 7) (db two_prompts) = None
   \<and> fst (delete_prompt (\<lambda>m. m) (Some 7) two_prompts) = \<lparr>status = 200, json = Success\<rparr>
   \<and> db (snd (delete_prompt (\<lambda>m. m) (Some 7) two_prompts)) = db two_prompts
   \<and> published (snd (delete_prompt (\<lambda>m. m) (Some 7) two_prompts))
       = published two_prompts @ [PromptDeleted (Some 7)]"
proof -
  have h: "select_get (Some 7) (db two_prompts) = None"
    by (simp add: two_prompts_def eval_defs)
  show ?thesis
    using h delete_missing_id_publishes [OF h, of "\<lambda>m. m"] by (simp add: broadcast_fields)
qed

section \<open>Updating a prompt\<close>

text \<open>
  C6, as claimed: an update of an existing row overwrites the three fields whatever they are
  and leaves \<^verbatim>\<open>updated_at\<close> later than \<^verbatim>\<open>created_at\<close>. Row 4 of \<open>two_prompts\<close> was created
  in second 100. Updated in that same second it is answered with 200, and its two timestamps
  are equal. Updated with the title absent it is answered with 500 and stays as it was.
\<close>

theorem put_prompt_counterexample:
  "fst (put_prompt (\<lambda>m. m) 100 (Some 4) prompt_b two_prompts) = \<lparr>status = 200, json = Success\<rparr>
   \<and> map_option (\<lambda>p. (created_at p, updated_at p))
        (select_get (Some 4) (db (snd (put_prompt (\<lambda>m. m) 100 (Some 4) prompt_b two_prompts))))
       = Some (100, 100)
   \<and> put_prompt (\<lambda>m. m) 300 (Some 4) no_title two_prompts
       = (\<lparr>status = 500, json = Error UpdateFailed\<rparr>, two_prompts)
   \<and> map_option title (select_get (Some 4) (db two_prompts)) = Some ''A''"
  by (simp add: two_prompts_def eval_defs)

text \<open>
  C6, amended. If no row has the id, the answer is 404 and the server state is as it was:
  nothing changed, nothing broadcast. If a row has the id and title and content are texts
  (empty ones included), the answer is 200, the row then carries the given title and
  content, the given category (NULL when it is absent) and the time of the update as
  \<^verbatim>\<open>updated_at\<close>, its \<^verbatim>\<open>created_at\<close> is untouched, and one \<^verbatim>\<open>prompt_updated\<close> event with
  that row is published: \<^verbatim>\<open>broadcast\<close> is called once, serializes once, and every open
  connection gets that one payload appended to what was sent to it while every other
  connection stays as it was. So \<^verbatim>\<open>updated_at\<close> is later than \<^verbatim>\<open>created_at\<close> exactly when
  the update happens in a later second than the creation. If a row has the id and title or
  content is absent, the answer is 500 and the server state is as it was.
\<close>

theorem put_prompt_behaviour:
  "(select_get i (db st) = None \<longrightarrow>
      put_prompt J now i b st = (\<lparr>status = 404, json = Error NotFound\<rparr>, st))
   \<and> (select_get i (db st) = Some p \<and> req_title b = Str t \<and> req_content b = Str c \<longrightarrow>
        fst (put_prompt J now i b st) = \<lparr>status = 200, json = Success\<rparr>
      \<and> select_get i (db (snd (put_prompt J now i b st)))
          = Some (p\<lparr>title := t, content := c, category := bind_value (req_category b),
                    updated_at := now\<rparr>)
      \<and> published (snd (put_prompt J now i b st))
          = published st @ [PromptUpdated (Some (p\<lparr>title := t, content := c,
                category := bind_value (req_category b), updated_at := now\<rparr>))]
      \<and> stringify_calls (snd (put_prompt J now i b st)) = stringify_calls st + 1
      \<and> wss_clients (snd (put_prompt J now i b st))
          = map (\<lambda>client. if readyState client = OPEN
                         then client\<lparr>sent := sent client @ [J (PromptUpdated (Some
                                (p\<lparr>title := t, content := c,
                                   category := bind_value (req_category b),
                                   updated_at := now\<rparr>)))]\<rparr>
                         else client)
              (wss_clients st)
      \<and> snd (put_prompt J now i b st)
          = broadcast J (PromptUpdated (Some (p\<lparr>title := t, content := c,
                category := bind_value (req_category b), updated_at := now\<rparr>)))
              (st\<lparr>db := db (snd (put_prompt J now i b st))\<rparr>))
   \<and> (select_get i (db st) = Some p
        \<and> (bind_value (req_title b) = None \<or> bind_value (req_content b) = None) \<longrightarrow>
      put_prompt J now i b st = (\<lparr>status = 500, json = Error UpdateFailed\<rparr>, st))"
proof (intro conjI impI)
  assume "select_get i (db st) = None"
  then have "filter (where_id i) (prompts (db st)) = []"
    by (auto simp: select_get_def find_None_iff filter_empty_conv)
  then have "update_run now (req_title b) (req_content b) (req_category b) i (db st)
      = Inr (0, db st)"
    by (simp add: update_run_def)
  then show "put_prompt J now i b st = (\<lparr>status = 404, json = Error NotFound\<rparr>, st)"
    by (simp add: put_prompt_def)
next
  assume a: "select_get i (db st) = Some p \<and> req_title b = Str t \<and> req_content b = Str c"
  let ?upd = "\<lambda>q. if where_id i q
                   then q\<lparr>title := t, content := c, category := bind_value (req_category b),
                          updated_at := now\<rparr>
                   else q"
  let ?p = "p\<lparr>title := t, content := c, category := bind_value (req_category b),
              updated_at := now\<rparr>"
  from a have f: "find (where_id i) (prompts (db st)) = Some p"
    by (simp add: select_get_def)
  then have wp: "where_id i p"
    by (auto simp: find_Some_iff)
  from f have n: "length (filter (where_id i) (prompts (db st))) \<noteq> 0"
    by (auto simp: filter_empty_conv find_Some_iff)
  have same: "\<And>q. where_id i (?upd q) = where_id i q"
    by (cases i) simp_all
  have "find (where_id i) (map ?upd (prompts (db st))) = map_option ?upd (Some p)"
    using find_map_same[of "where_id i" ?upd, OF same] f by simp
  then have g: "select_get i ((db st)\<lparr>prompts := map ?upd (prompts (db st))\<rparr>) = Some ?p"
    using wp by (simp add: select_get_def)
  have pp: "put_prompt J now i b st =
      (\<lparr>status = 200, json = Success\<rparr>,
       broadcast J (PromptUpdated (Some ?p))
         (st\<lparr>db := (db st)\<lparr>prompts := map ?upd (prompts (db st))\<rparr>\<rparr>))"
    using a n g by (simp add: put_prompt_def update_run_hit[OF f])
  show "fst (put_prompt J now i b st) = \<lparr>status = 200, json = Success\<rparr>"
    unfolding pp by simp
  show "select_get i (db (snd (put_prompt J now i b st))) = Some ?p"
    unfolding pp using g by (simp add: broadcast_fields)
  show "published (snd (put_prompt J now i b st)) = published st @ [PromptUpdated (Some ?p)]"
    unfolding pp by (simp add: broadcast_fields)
  show "stringify_calls (snd (put_prompt J now i b st)) = stringify_calls st + 1"
    unfolding pp by (simp add: broadcast_fields)
  show "wss_clients (snd (put_prompt J now i b st))
          = map (\<lambda>client. if readyState client = OPEN
                         then client\<lparr>sent := sent client @ [J (PromptUpdated (Some ?p))]\<rparr>
                         else client)
              (wss_clients st)"
    unfolding pp by (simp add: broadcast_clients)
  show "snd (put_prompt J now i b st)
          = broadcast J (PromptUpdated (Some ?p))
              (st\<lparr>db := db (snd (put_prompt J now i b st))\<rparr>)"
    unfolding pp by (simp add: broadcast_fields)
next
  assume a: "select_get i (db st) = Some p
        \<and> (bind_value (req_title b) = None \<or> bind_value (req_content b) = None)"
  then have "filter (where_id i) (prompts (db st)) \<noteq> []"
    by (auto simp: select_get_def filter_empty_conv find_Some_iff)
  then have "update_run now (req_title b) (req_content b) (req_category b) i (db st)
      = Inl NotNullConstraint"
    using a by (auto simp: update_run_def Let_def split: option.splits)
  then show "put_prompt J now i b st = (\<lparr>status = 500, json = Error UpdateFailed\<rparr>, st)"
    by (simp add: put_prompt_def)
qed

theorem put_prompt_behaviour_witness:
  "select_get (Some 7) (db watched) = None
   \<and> put_prompt (\<lambda>m. m) 300 (Some 7) prompt_b watched
       = (\<lparr>status = 404, json = Error NotFound\<rparr>, watched)
   \<and> select_get (Some 4) (db watched)
       = Some \<lparr>id' = 4, title = ''A'', content = ''a'', category = Some ''General'',
               created_at = 100, updated_at = 100\<rparr>
   \<and> fst (put_prompt (\<lambda>m. m) 300 (Some 4) prompt_b watched)
       = \<lparr>status = 200, json = Success\<rparr>
   \<and> select_get (Some 4) (db (snd (put_prompt (\<lambda>m. m) 300 (Some 4) prompt_b watched)))
       = Some \<lparr>id' = 4, title = ''B'', content = ''b'', category = Some ''X'',
               created_at = 100, updated_at = 300\<rparr>
   \<and> map sent (wss_clients watched) = [[InitialData (select_all (db two_prompts))]]
   \<and> map sent (wss_clients (snd (put_prompt (\<lambda>m. m) 300 (Some 4) prompt_b watched)))
       = [[InitialData (select_all (db two_prompts)),
           PromptUpdated (Some \<lparr>id' = 4, title = ''B'', content = ''b'',
             category = Some ''X'', created_at = 100, updated_at = 300\<rparr>)]]
   \<and> bind_value (req_title no_title) = None
   \<and> put_prompt (\<lambda>m. m) 300 (Some 4) no_title watched
       = (\<lparr>status = 500, json = Error UpdateFailed\<rparr>, watched)"
proof -
  let ?p = "\<lparr>id' = 4, title = ''A'', content = ''a'', category = Some ''General'',
             created_at = 100, updated_at = 100\<rparr>"
  have m: "select_get (Some 7) (db watched) = None"
    by (simp add: watched_def two_prompts_def eval_defs)
  have h: "select_get (Some 4) (db watched) = Some ?p"
    by (simp add: watched_def two_prompts_def eval_defs)
  have w: "wss_clients watched =
      [\<lparr>handle = 0, readyState = OPEN, isAlive = True,
         sent = [InitialData (select_all (db two_prompts))], pings = 0, terminated = False\<rparr>]"
    by (simp add: watched_def two_prompts_def eval_defs)
  have b: "req_title prompt_b = Str ''B''" "req_content prompt_b = Str ''b''"
    "bind_value (req_category prompt_b) = Some ''X''"
    by (simp_all add: prompt_b_def)
  have n: "bind_value (req_title no_title) = None"
    by (simp add: no_title_def)
  have 1: "put_prompt (\<lambda>m. m) 300 (Some 7) prompt_b watched
       = (\<lparr>status = 404, json = Error NotFound\<rparr>, watched)"
    using put_prompt_behaviour [of "Some 7" watched "\<lambda>m. m" 300 prompt_b] m by blast
  have 2: "fst (put_prompt (\<lambda>m. m) 300 (Some 4) prompt_b watched)
       = \<lparr>status = 200, json = Success\<rparr>
     \<and> select_get (Some 4) (db (snd (put_prompt (\<lambda>m. m) 300 (Some 4) prompt_b watched)))
       = Some (?p\<lparr>title := ''B'', content := ''b'',
                   category := bind_value (req_category prompt_b), updated_at := 300\<rparr>)
     \<and> wss_clients (snd (put_prompt (\<lambda>m. m) 300 (Some 4) prompt_b watched))
          = map (\<lambda>client. if readyState client = OPEN
                         then client\<lparr>sent := sent client @ [PromptUpdated (Some
                                (?p\<lparr>title := ''B'', content := ''b'',
                                   category := bind_value (req_category prompt_b),
                                   updated_at := 300\<rparr>))]\<rparr>
                         else client)
              (wss_clients watched)"
    using put_prompt_behaviour [of "Some 4" watched "\<lambda>m. m" 300 prompt_b ?p "''B''" "''b''"]
      h b(1,2) by blast
  have 3: "put_prompt (\<lambda>m. m) 300 (Some 4) no_title watched
       = (\<lparr>status = 500, json = Error UpdateFailed\<rparr>, watched)"
    using put_prompt_behaviour [of "Some 4" watched "\<lambda>m. m" 300 no_title ?p] h n by blast
  show ?thesis
    using m h n 1 2 3 b(3) by (simp add: w)
qed

section \<open>The snapshot for a new viewer\<close>

text \<open>
  C3. The claim: a new connection is sent, alone, one \<^verbatim>\<open>initial_data\<close> event whose data is
  the listing, that is all rows ordered by \<^verbatim>\<open>updated_at\<close> descending. The connection
  handler sends the result of \<^verbatim>\<open>SELECT * FROM prompts\<close>, without the ORDER BY of the
  listing. In \<open>two_prompts\<close> the table holds the sample prompts 1, 2, 3 of second 0 and the
  rows 4 and 5, updated at seconds 100 and 200. The new viewer is sent the rows in the order
  1, 2, 3, 4, 5, while the listing of \<^verbatim>\<open>GET /api/prompts\<close> starts with 5, 4.
\<close>

theorem snapshot_in_table_order:
  "map sent (wss_clients (on_connection (\<lambda>m. m) two_prompts))
     = [[InitialData (select_all (db two_prompts))]]
   \<and> map id' (select_all (db two_prompts)) = [1, 2, 3, 4, 5]
   \<and> map updated_at (select_all (db two_prompts)) = [0, 0, 0, 100, 200]
   \<and> json (fst (get_prompts two_prompts))
       = Rows (select_all_order_by_updated_at_desc (db two_prompts))
   \<and> map id' (select_all_order_by_updated_at_desc (db two_prompts)) = [5, 4, 1, 2, 3]"
  by (simp add: two_prompts_def eval_defs)

section \<open>Broadcast\<close>

text \<open>
  C9. A broadcast calls \<^verbatim>\<open>JSON.stringify\<close> exactly once, whatever the number of
  connections. It keeps the registry's connections and their order; every connection whose
  state is OPEN gets the one payload \<open>J m\<close> appended to what was sent to it and is otherwise
  unchanged; every other connection is skipped and stays exactly as it was. The function is
  total: no connection makes it fail.
\<close>

theorem broadcast_delivery:
  "stringify_calls (broadcast J m st) = stringify_calls st + 1
   \<and> length (wss_clients (broadcast J m st)) = length (wss_clients st)
   \<and> (\<forall>k<length (wss_clients st).
        (readyState (wss_clients st ! k) = OPEN \<longrightarrow>
           wss_clients (broadcast J m st) ! k
             = (wss_clients st ! k)\<lparr>sent := sent (wss_clients st ! k) @ [J m]\<rparr>)
      \<and> (readyState (wss_clients st ! k) \<noteq> OPEN \<longrightarrow>
           wss_clients (broadcast J m st) ! k = wss_clients st ! k))"
  by (simp add: broadcast_def Let_def send_def)

theorem broadcast_delivery_witness:
  "map readyState (wss_clients two_viewers) = [CLOSING, OPEN]
   \<and> map sent (wss_clients two_viewers)
       = [[InitialData (select_all (db started))], [InitialData (select_all (db started))]]
   \<and> stringify_calls (broadcast (\<lambda>m. m) (PromptsImported 0) two_viewers)
       = stringify_calls two_viewers + 1
   \<and> wss_clients (broadcast (\<lambda>m. m) (PromptsImported 0) two_viewers) ! 0
       = wss_clients two_viewers ! 0
   \<and> sent (wss_clients (broadcast (\<lambda>m. m) (PromptsImported 0) two_viewers) ! 1)
       = [InitialData (select_all (db started)), PromptsImported 0]"
proof -
  have w: "wss_clients two_viewers =
      [\<lparr>handle = 0, readyState = CLOSING, isAlive = False,
         sent = [InitialData (select_all (db started))], pings = 1, terminated = True\<rparr>,
       \<lparr>handle = 1, readyState = OPEN, isAlive = False,
         sent = [InitialData (select_all (db started))], pings = 2, terminated = False\<rparr>]"
    by (simp add: two_viewers_def eval_defs)
  note d = broadcast_delivery [of "\<lambda>m. m" "PromptsImported 0" two_viewers]
  have "wss_clients (broadcast (\<lambda>m. m) (PromptsImported 0) two_viewers) ! 0
      = wss_clients two_viewers ! 0"
    using d by (simp add: w)
  moreover have "wss_clients (broadcast (\<lambda>m. m) (PromptsImported 0) two_viewers) ! 1
      = (wss_clients two_viewers ! 1)\<lparr>sent := sent (wss_clients two_viewers ! 1)
           @ [PromptsImported 0]\<rparr>"
    using d by (simp add: w)
  ultimately show ?thesis
    using d by (simp add: w)
qed

section \<open>The heartbeat\<close>

text \<open>
  C7. Take a connection \<open>h\<close> that is registered, open and not terminated, and any run of
  the server (requests, other viewers connecting, closing and answering, time passing) in
  which \<open>h\<close> answers every probe before the next heartbeat and does not disconnect. Then
  in every state the run passes through, \<open>h\<close> is still in \<^verbatim>\<open>wss.clients\<close>, open and not
  terminated, and still in \<^verbatim>\<open>clients\<close>.
\<close>

theorem answering_connection_never_evicted:
  assumes "liveness h st = [(OPEN, a, False)]"
    and "h < next_handle st"
    and "h \<in> set (clients st)"
    and "answers_every_probe h (clock st) (\<not> a) evs"
  shows "\<forall>k. \<exists>a'. liveness h (run J (take k evs) st) = [(OPEN, a', False)]
            \<and> h \<in> set (clients (run J (take k evs) st))"
proof
  fix k
  have "answers_every_probe h (clock st) (\<not> a) (take k evs)"
    using assms(4) by (rule answers_every_probe_take)
  with assms(1-3)
  show "\<exists>a'. liveness h (run J (take k evs) st) = [(OPEN, a', False)]
            \<and> h \<in> set (clients (run J (take k evs) st))"
    by (rule answered_run)
qed

theorem answering_connection_never_evicted_witness:
  "liveness 0 one_viewer = [(OPEN, True, False)]
   \<and> 0 < next_handle one_viewer
   \<and> 0 \<in> set (clients one_viewer)
   \<and> answers_every_probe 0 (clock one_viewer) False answering_run
   \<and> clock (run (\<lambda>m. m) answering_run one_viewer) = 60001
   \<and> (\<exists>a'. liveness 0 (run (\<lambda>m. m) answering_run one_viewer) = [(OPEN, a', False)]
          \<and> 0 \<in> set (clients (run (\<lambda>m. m) answering_run one_viewer)))"
proof -
  have v: "wss_clients one_viewer =
        [\<lparr>handle = 0, readyState = OPEN, isAlive = True,
           sent = [InitialData (select_all (db started))], pings = 0, terminated = False\<rparr>]"
      "clients one_viewer = [0]" "next_handle one_viewer = 1" "clock one_viewer = 1000"
    by (simp_all add: one_viewer_def eval_defs)
  have 1: "liveness 0 one_viewer = [(OPEN, True, False)]"
    by (simp add: v liveness_def view_def)
  have 2: "0 < next_handle one_viewer" and 3: "0 \<in> set (clients one_viewer)"
    by (simp_all add: v)
  have 4: "answers_every_probe 0 (clock one_viewer) (\<not> True) answering_run"
    by (simp add: v answering_run_def fired_def heartbeat_period_def)
  have 5: "clock (run (\<lambda>m. m) answering_run one_viewer) = 60001"
    by (simp add: run_def answering_run_def elapse_fields on_pong_frame handle_request_frame v)
  have "\<exists>a'. liveness 0 (run (\<lambda>m. m) (take 5 answering_run) one_viewer) = [(OPEN, a', False)]
          \<and> 0 \<in> set (clients (run (\<lambda>m. m) (take 5 answering_run) one_viewer))"
    using answering_connection_never_evicted [OF 1 2 3 4, of "\<lambda>m. m"] by blast
  then show ?thesis
    using 1 2 3 4 5 by (simp add: answering_run_def)
qed

text \<open>
  C8. Take a connection \<open>h\<close> that has just been marked alive (by connecting or by a pong),
  at an instant \<open>t\<close> of the clock after the timer was started, and any run in which \<open>h\<close>
  sends no pong and does not disconnect. The second heartbeat due at or after \<open>t\<close> is due
  at \<open>eviction_instant t\<close>, which is at least \<open>P\<close> and less than \<open>2P\<close> after \<open>t\<close>. Up to
  the first of the two heartbeats the connection is untouched; between the two it is
  flagged, still open; the second heartbeat destroys its socket (state CLOSING, terminated),
  which is what the registry shows in the millisecond of that heartbeat; and in every state
  of the run after that millisecond the connection is gone from \<^verbatim>\<open>wss.clients\<close> and from
  \<^verbatim>\<open>clients\<close>, taken out by the close event that the destruction brings.
\<close>

theorem unanswered_evicted_on_second_cycle:
  assumes "liveness h st = [(OPEN, True, False)]"
    and "h < next_handle st"
    and "0 < clock st"
    and "silent h evs"
  shows "heartbeat_period \<le> eviction_instant (clock st) - clock st
       \<and> eviction_instant (clock st) - clock st < 2 * heartbeat_period
       \<and> (clock (run J evs st) \<le> eviction_instant (clock st) - heartbeat_period \<longrightarrow>
            liveness h (run J evs st) = [(OPEN, True, False)])
       \<and> (eviction_instant (clock st) - heartbeat_period < clock (run J evs st)
            \<and> clock (run J evs st) \<le> eviction_instant (clock st) \<longrightarrow>
            liveness h (run J evs st) = [(OPEN, False, False)])
       \<and> (clock (run J evs st) = eviction_instant (clock st) + 1 \<longrightarrow>
            liveness h (run J evs st) = [(CLOSING, False, True)])
       \<and> (eviction_instant (clock st) + 1 < clock (run J evs st) \<longrightarrow>
            liveness h (run J evs st) = []
          \<and> h \<notin> set (clients (run J evs st)))"
proof -
  define s where "s = run J evs st"
  define e where "e = eviction_instant (clock st)"
  have f: "clock st \<le> e - heartbeat_period"
    unfolding e_def by (rule mark_before_first_beat)
  have le: "e - heartbeat_period \<le> e" by simp
  have i: "liveness h st = expected (clock st) (clock st)"
    using assms(1) f by (simp add: expected_def e_def)
  have "\<not> e + 1 < clock st"
    using f le by linarith
  then have g: "eviction_instant (clock st) + 1 < clock st \<longrightarrow> h \<notin> set (clients st)"
    by (simp add: e_def)
  have r: "liveness h s = expected (clock st) (clock s)
      \<and> (eviction_instant (clock st) + 1 < clock s \<longrightarrow> h \<notin> set (clients s))"
    unfolding s_def using i _ g assms(2,4) by (rule silent_run) simp
  have a: "clock s \<le> e - heartbeat_period \<longrightarrow> liveness h s = [(OPEN, True, False)]"
    using r by (simp add: expected_def e_def)
  have b: "e - heartbeat_period < clock s \<and> clock s \<le> e \<longrightarrow>
      liveness h s = [(OPEN, False, False)]"
    using r by (auto simp: expected_def e_def)
  have c: "clock s = e + 1 \<longrightarrow> liveness h s = [(CLOSING, False, True)]"
    using r by (auto simp: expected_def e_def)
  have d: "e + 1 < clock s \<longrightarrow> liveness h s = [] \<and> h \<notin> set (clients s)"
    using r by (auto simp: expected_def e_def)
  show ?thesis
    using eviction_window[OF assms(3)] a b c d
    by (simp add: s_def[symmetric] e_def[symmetric])
qed

theorem unanswered_evicted_on_second_cycle_witness:
  "liveness 0 one_viewer = [(OPEN, True, False)]
   \<and> 0 < next_handle one_viewer
   \<and> clock one_viewer = 1000
   \<and> 0 \<in> set (clients one_viewer)
   \<and> silent 0 (silent_run_example @ [Elapse 2])
   \<and> eviction_instant (clock one_viewer) = 60000
   \<and> clock (run (\<lambda>m. m) [Elapse 29001] one_viewer) = 30001
   \<and> liveness 0 (run (\<lambda>m. m) [Elapse 29001] one_viewer) = [(OPEN, False, False)]
   \<and> clock (run (\<lambda>m. m) silent_run_example one_viewer) = 60001
   \<and> liveness 0 (run (\<lambda>m. m) silent_run_example one_viewer) = [(CLOSING, False, True)]
   \<and> clock (run (\<lambda>m. m) (silent_run_example @ [Elapse 2]) one_viewer) = 60003
   \<and> liveness 0 (run (\<lambda>m. m) (silent_run_example @ [Elapse 2]) one_viewer) = []
   \<and> 0 \<notin> set (clients (run (\<lambda>m. m) (silent_run_example @ [Elapse 2]) one_viewer))"
proof -
  have v: "wss_clients one_viewer =
        [\<lparr>handle = 0, readyState = OPEN, isAlive = True,
           sent = [InitialData (select_all (db started))], pings = 0, terminated = False\<rparr>]"
      "clients one_viewer = [0]" "next_handle one_viewer = 1" "clock one_viewer = 1000"
    by (simp_all add: one_viewer_def eval_defs)
  have 1: "liveness 0 one_viewer = [(OPEN, True, False)]"
    by (simp add: v liveness_def view_def)
  have 2: "0 < next_handle one_viewer" and 3: "0 < clock one_viewer"
    and c: "clock one_viewer = 1000"
    by (simp_all add: v)
  have 4: "silent 0 silent_run_example" and q4: "silent 0 [Elapse 29001]"
    and r4: "silent 0 (silent_run_example @ [Elapse 2])"
    by (simp_all add: silent_def silent_run_example_def)
  have e: "eviction_instant (clock one_viewer) = 60000"
    by (simp add: c eviction_instant_def fired_def heartbeat_period_def)
  have 5: "clock (run (\<lambda>m. m) silent_run_example one_viewer) = 60001"
    and q5: "clock (run (\<lambda>m. m) [Elapse 29001] one_viewer) = 30001"
    and r5: "clock (run (\<lambda>m. m) (silent_run_example @ [Elapse 2]) one_viewer) = 60003"
    by (simp_all add: run_def silent_run_example_def elapse_fields handle_request_frame c)
  have "clock (run (\<lambda>m. m) silent_run_example one_viewer) = eviction_instant (clock one_viewer) + 1"
    by (simp add: e 5)
  then have a: "liveness 0 (run (\<lambda>m. m) silent_run_example one_viewer) = [(CLOSING, False, True)]"
    using unanswered_evicted_on_second_cycle [OF 1 2 3 4, of "\<lambda>m. m"] by blast
  have "eviction_instant (clock one_viewer) - heartbeat_period
          < clock (run (\<lambda>m. m) [Elapse 29001] one_viewer)
      \<and> clock (run (\<lambda>m. m) [Elapse 29001] one_viewer)
          \<le> eviction_instant (clock one_viewer)"
    by (simp add: e q5 heartbeat_period_def)
  then have b: "liveness 0 (run (\<lambda>m. m) [Elapse 29001] one_viewer)
      = [(OPEN, False, False)]"
    using unanswered_evicted_on_second_cycle [OF 1 2 3 q4, of "\<lambda>m. m"] by blast
  have "eviction_instant (clock one_viewer) + 1
      < clock (run (\<lambda>m. m) (silent_run_example @ [Elapse 2]) one_viewer)"
    by (simp add: e r5)
  then have d: "liveness 0 (run (\<lambda>m. m) (silent_run_example @ [Elapse 2]) one_viewer) = []
      \<and> 0 \<notin> set (clients (run (\<lambda>m. m) (silent_run_example @ [Elapse 2]) one_viewer))"
    using unanswered_evicted_on_second_cycle [OF 1 2 3 r4, of "\<lambda>m. m"] by blast
  show ?thesis
    using 1 2 c 4 r4 e 5 q5 r5 a b d by (simp add: v)
qed

end
